theory Spec2Isabelle
  imports Main "HOL-Library.Word" "HOL-Library.Signed_Division"
begin

unbundle bit_operations_syntax

section \<open>Machine types\<close>

text \<open>
  \<open>byte\<close> is the 8-bit unsigned type of the sources and \<open>int8\<close> the signed one, read
  with \<open>sint\<close>. A C \<open>int\<close> that can take any value
  (volumes, priorities, the \<open>flags\<close> argument) is a 32-bit word read with \<open>sint\<close>; \<open>+\<close>
  and \<open>-\<close> wrap, and \<open>/\<close> is \<open>c_div\<close>, the quotient truncated towards zero.
\<close>

type_synonym byte = "8 word"
type_synonym int8 = "8 word"
type_synonym uint16 = "16 word"
type_synonym uint32 = "32 word"
type_synonym int32 = "32 word"

definition c_div :: "int32 \<Rightarrow> int32 \<Rightarrow> int32" where
  "c_div a b = word_of_int (sint a sdiv sint b)"

section \<open>engines/ultima/ultima8/audio/audio\_channel.h\<close>

text \<open>
  The channel holds a pointer to the host mixer and calls it. The mixer is host code, so
  it is modelled by what the channel does to it: the sequence of calls it receives.
  A member function is a transformer of the pair (channel, mixer); the leading
  underscore of the member names is dropped.

  Modelled from the spec: \<open>Audio::Mixer\<close> is declared by the host, not in the sources.
  Its \<open>setChannelVolume\<close> takes the volume as a \<open>byte\<close> and its \<open>setChannelBalance\<close>
  takes the balance as an \<open>int8\<close>, so the \<open>int\<close> that \<open>setVolume\<close> computes is converted
  at each call: the mixer receives its low eight bits.
\<close>

datatype MixerCall =
    SetChannelVolume nat byte
  | SetChannelBalance nat int8

record AudioChannel =
  soundHandle :: nat
  loop :: int32
  lVol :: int32
  rVol :: int32
  pitchShift :: uint32
  priority :: int32
  paused :: bool

record Audio =
  channel :: AudioChannel
  mixer :: "MixerCall list"

definition setChannelVolume :: "nat \<Rightarrow> byte \<Rightarrow> MixerCall list \<Rightarrow> MixerCall list" where
  "setChannelVolume hnd v m = m @ [SetChannelVolume hnd v]"

definition setChannelBalance :: "nat \<Rightarrow> int8 \<Rightarrow> MixerCall list \<Rightarrow> MixerCall list" where
  "setChannelBalance hnd b m = m @ [SetChannelBalance hnd b]"

definition setVolume :: "int32 \<Rightarrow> int32 \<Rightarrow> Audio \<Rightarrow> Audio" where
  "setVolume lvol rvol a =
     (let c = (channel a)\<lparr>lVol := lvol, rVol := rvol\<rparr>;
          m1 = setChannelVolume (soundHandle c) (ucast (c_div (rvol + lvol) 2)) (mixer a);
          m2 = setChannelBalance (soundHandle c) (ucast (c_div (rvol - lvol) 2)) m1
      in a\<lparr>channel := c, mixer := m2\<rparr>)"

definition getVolume :: "Audio \<Rightarrow> (int32 \<times> int32) \<times> Audio" where
  "getVolume a = ((lVol (channel a), rVol (channel a)), a)"

definition setPriority :: "int32 \<Rightarrow> Audio \<Rightarrow> Audio" where
  "setPriority p a = a\<lparr>channel := (channel a)\<lparr>priority := p\<rparr>\<rparr>"

definition getPriority :: "Audio \<Rightarrow> int32 \<times> Audio" where
  "getPriority a = (priority (channel a), a)"

definition isPaused :: "Audio \<Rightarrow> bool \<times> Audio" where
  "isPaused a = (paused (channel a), a)"

section \<open>engines/toon/movie.cpp: the decoder\<close>

text \<open>
  What the source can do besides returning: read or write outside a buffer, trip an
  assertion of the host, read past the end of the file stream, or call \<open>error\<close>, which
  does not return.
\<close>

datatype error = MemoryFault | HostAssert | EndOfStream | Fatal string

text \<open>
  The decoder's own member is \<open>_lowRes\<close>. Of the base class \<open>Video::SmackerDecoder\<close>
  (host code) the source uses the video height (\<open>getHeight\<close>) and the file stream,
  here the bytes not read yet. \<open>readUint16LE\<close> takes two of them, low byte first; where
  fewer than two remain the value read is not defined by the stream, and the model stops
  with \<open>EndOfStream\<close>. The base class's versions of \<open>handleAudioTrack\<close> and
  \<open>loadStream\<close> are parameters.
\<close>

record Decoder =
  lowRes :: bool
  getHeight :: uint16
  fileStream :: "byte list"

fun readUint16LE :: "byte list \<Rightarrow> (uint16 \<times> byte list) option" where
  "readUint16LE (b0 # b1 # rest) = Some (ucast b0 OR push_bit 8 (ucast b1), rest)"
| "readUint16LE _ = None"

definition ToonstruckSmackerDecoder :: "Decoder \<Rightarrow> Decoder" where
  "ToonstruckSmackerDecoder base = base\<lparr>lowRes := False\<rparr>"

definition handleAudioTrack ::
  "(byte \<Rightarrow> uint32 \<Rightarrow> uint32 \<Rightarrow> Decoder \<Rightarrow> error + Decoder) \<Rightarrow>
   byte \<Rightarrow> uint32 \<Rightarrow> uint32 \<Rightarrow> Decoder \<Rightarrow> error + Decoder" where
  "handleAudioTrack baseHandleAudioTrack track chunkSize unpackedSize d =
     (if track = 1 \<and> chunkSize = 4 then
        (case readUint16LE (fileStream d) of
           None \<Rightarrow> Inl EndOfStream
         | Some (width, s1) \<Rightarrow>
            (case readUint16LE s1 of
               None \<Rightarrow> Inl EndOfStream
             | Some (height, s2) \<Rightarrow>
                 Inr (d\<lparr>fileStream := s2,
                        lowRes := (uint height = uint (getHeight d) sdiv 2)\<rparr>)))
      else baseHandleAudioTrack track chunkSize unpackedSize d)"

definition loadStream ::
  "('s \<Rightarrow> Decoder \<Rightarrow> bool \<times> Decoder) \<Rightarrow> 's \<Rightarrow> Decoder \<Rightarrow> bool \<times> Decoder" where
  "loadStream baseLoadStream stream d =
     (case baseLoadStream stream d of
        (ok, d1) \<Rightarrow> if \<not> ok then (False, d1) else (True, d1\<lparr>lowRes := False\<rparr>))"

text \<open>
  Modelled from the spec: \<open>isLowRes\<close> is declared in toon/movie.h, which is not among
  the sources; it is how the decoder reports low-res, and returns the flag.
\<close>

definition isLowRes :: "Decoder \<Rightarrow> bool" where
  "isLowRes d = lowRes d"

section \<open>engines/toon/movie.cpp: the playback driver and what it owns\<close>

text \<open>
  Objects live at addresses; 0 is the null pointer. The store is the list of the
  addresses of live objects. \<open>new\<close> returns an address that is not live, \<open>delete\<close> of
  the null pointer does nothing, and \<open>delete\<close> of an address that is not live is a fault.
\<close>

record Store =
  live :: "nat list"

definition new :: "Store \<Rightarrow> nat \<times> Store" where
  "new st = (let a = Suc (foldr max (live st) 0) in (a, st\<lparr>live := a # live st\<rparr>))"

definition delete :: "nat \<Rightarrow> Store \<Rightarrow> error + Store" where
  "delete p st =
     (if p = 0 then Inr st
      else if p \<in> set (live st) then Inr (st\<lparr>live := removeAll p (live st)\<rparr>)
      else Inl MemoryFault)"

record Movie =
  playing :: bool
  decoderPtr :: nat
  subtitlePtr :: nat

definition Movie_ctor :: "nat \<Rightarrow> Store \<Rightarrow> Movie \<times> Store" where
  "Movie_ctor dec st =
     (case new st of
        (sub, st1) \<Rightarrow> (\<lparr>playing = False, decoderPtr = dec, subtitlePtr = sub\<rparr>, st1))"

definition Movie_dtor :: "Movie \<Rightarrow> Store \<Rightarrow> error + Store" where
  "Movie_dtor m st =
     (case delete (decoderPtr m) st of
        Inl e \<Rightarrow> Inl e
      | Inr st1 \<Rightarrow> delete (subtitlePtr m) st1)"

section \<open>engines/toon/movie.cpp: surfaces and the host\<close>

text \<open>
  Modelled from the spec: \<open>Graphics::Surface\<close> is declared by the host, not in the
  sources. It is the width, the height, the length of a row in bytes and the pixel
  buffer; a frame of this codec has one byte per pixel, a palette index. The sizes are
  16-bit in the host, so the products the source forms from them do not overflow and
  they are kept as integers. \<open>getBasePtr\<close> is the offset of pixel (x, y) in the buffer.
\<close>

record Surface =
  w :: int
  h :: int
  pitch :: int
  pixels :: "byte list"

definition getBasePtr :: "Surface \<Rightarrow> int \<Rightarrow> int \<Rightarrow> int" where
  "getBasePtr sf x y = y * pitch sf + x"

text \<open>
  \<open>memcpy\<close> of \<open>n\<close> bytes from offset \<open>so\<close> of \<open>src\<close> to offset \<open>d\<close> of \<open>dst\<close>, two
  buffers that do not overlap. A range outside its buffer is a fault; a negative \<open>n\<close>
  is a huge \<open>size_t\<close> and a fault too.
\<close>

definition memcpy :: "byte list \<Rightarrow> int \<Rightarrow> byte list \<Rightarrow> int \<Rightarrow> int \<Rightarrow> error + byte list" where
  "memcpy dst d src so n =
     (if 0 \<le> n \<and> 0 \<le> d \<and> d + n \<le> int (length dst) \<and> 0 \<le> so \<and> so + n \<le> int (length src)
      then Inr (take (nat d) dst @ take (nat n) (drop (nat so) src) @ drop (nat (d + n)) dst)
      else Inl MemoryFault)"

text \<open>
  The calls into the host and the engine, in the order they are made. A buffer argument
  that points into the current frame is recorded as its offset in the frame's pixels.
\<close>

datatype HostCall =
    Start
  | LockScreen
  | UnlockScreen
  | CopyRectToScreen int int int int int int
  | Render Surface int byte
  | SetPalette "byte list" nat nat
  | UpdateScreen
  | DirtyAllScreen
  | DelayMillis nat
  | SetMusicVolume int
  | LoadFile string
  | SubtitleLoad string
  | FlushPalette bool
  | Close

record Host =
  screen :: Surface
  palette :: "byte list"
  musicVolume :: int
  calls :: "HostCall list"

definition call :: "HostCall \<Rightarrow> Host \<Rightarrow> Host" where
  "call c s = s\<lparr>calls := calls s @ [c]\<rparr>"

text \<open>
  Modelled from the spec: \<open>OSystem::copyRectToScreen(buf, pitch, x, y, w, h)\<close> is a
  host-provided display call. It writes the rectangle of \<open>cw\<close> by \<open>ch\<close> bytes found at
  \<open>buf\<close>, whose rows are \<open>pch\<close> bytes apart, to the screen at (x, y); the host asserts
  that the rectangle lies on the screen.
\<close>

fun copyRows ::
  "byte list \<Rightarrow> int \<Rightarrow> int \<Rightarrow> int \<Rightarrow> int \<Rightarrow> int \<Rightarrow> nat \<Rightarrow> Surface \<Rightarrow> error + Surface" where
  "copyRows buf off pch x y cw 0 scr = Inr scr"
| "copyRows buf off pch x y cw (Suc n) scr =
     (case memcpy (pixels scr) (getBasePtr scr x y) buf off cw of
        Inl e \<Rightarrow> Inl e
      | Inr px \<Rightarrow> copyRows buf (off + pch) pch x (y + 1) cw n (scr\<lparr>pixels := px\<rparr>))"

definition copyRectToScreen ::
  "byte list \<Rightarrow> int \<Rightarrow> int \<Rightarrow> int \<Rightarrow> int \<Rightarrow> int \<Rightarrow> int \<Rightarrow> Host \<Rightarrow> error + Host" where
  "copyRectToScreen buf off pch x y cw ch s =
     (if 0 \<le> x \<and> 0 \<le> y \<and> 0 \<le> cw \<and> 0 \<le> ch
         \<and> x + cw \<le> w (screen s) \<and> y + ch \<le> h (screen s)
      then (case copyRows buf off pch x y cw (nat ch) (screen s) of
              Inl e \<Rightarrow> Inl e
            | Inr scr \<Rightarrow> Inr (call (CopyRectToScreen off pch x y cw ch) (s\<lparr>screen := scr\<rparr>)))
      else Inl HostAssert)"

text \<open>
  Modelled from the spec: \<open>PaletteManager::setPalette(colors, start, num)\<close> is host
  code. It replaces the \<open>num\<close> palette entries from \<open>start\<close> on, three bytes each, with
  the bytes at \<open>colors\<close>; the palette has 256 entries.
\<close>

definition setPalette :: "byte list \<Rightarrow> nat \<Rightarrow> nat \<Rightarrow> Host \<Rightarrow> error + Host" where
  "setPalette colors start num s =
     (if start + num \<le> 256 \<and> length (palette s) = 768 then
        (case memcpy (palette s) (int (3 * start)) colors 0 (int (3 * num)) of
           Inl e \<Rightarrow> Inl e
         | Inr pal \<Rightarrow> Inr (call (SetPalette colors start num) (s\<lparr>palette := pal\<rparr>)))
      else Inl HostAssert)"

text \<open>
  \<open>SubtitleRenderer::render\<close> is engine code outside the sources. What it draws on the
  screen is the parameter \<open>fx\<close>; the call and its arguments are recorded.
\<close>

definition render ::
  "(Surface \<Rightarrow> int \<Rightarrow> byte \<Rightarrow> Surface \<Rightarrow> Surface) \<Rightarrow> Surface \<Rightarrow> int \<Rightarrow> byte \<Rightarrow> Host \<Rightarrow> Host" where
  "render fx frame frameNumber color s =
     call (Render frame frameNumber color) (s\<lparr>screen := fx frame frameNumber color (screen s)\<rparr>)"

definition setMusicVolume :: "int \<Rightarrow> Host \<Rightarrow> Host" where
  "setMusicVolume v s = call (SetMusicVolume v) (s\<lparr>musicVolume := v\<rparr>)"

section \<open>engines/toon/movie.cpp: playVideo\<close>

text \<open>
  The low-res branch: the loop \<open>for (int y = 0; y < frame->h / 2; y++)\<close> with its two
  \<open>memcpy\<close> calls into the locked screen surface.
\<close>

function scaleRows :: "Surface \<Rightarrow> int \<Rightarrow> Surface \<Rightarrow> error + Surface" where
  "scaleRows frame y surf =
     (if y < h frame sdiv 2 then
        (case memcpy (pixels surf) (getBasePtr surf 0 (y * 2 + 0))
                (pixels frame) (getBasePtr frame 0 y) (pitch frame) of
           Inl e \<Rightarrow> Inl e
         | Inr p1 \<Rightarrow>
            (case memcpy p1 (getBasePtr surf 0 (y * 2 + 1))
                    (pixels frame) (getBasePtr frame 0 y) (pitch frame) of
               Inl e \<Rightarrow> Inl e
             | Inr p2 \<Rightarrow> scaleRows frame (y + 1) (surf\<lparr>pixels := p2\<rparr>)))
      else Inr surf)"
  by pat_completeness auto
termination
  by (relation "measure (\<lambda>(frame, y, surf). nat (h frame sdiv 2 - y))") auto

definition scale2x :: "Surface \<Rightarrow> Host \<Rightarrow> error + Host" where
  "scale2x frame s =
     (case scaleRows frame 0 (screen (call LockScreen s)) of
        Inl e \<Rightarrow> Inl e
      | Inr surf \<Rightarrow> Inr (call UnlockScreen ((call LockScreen s)\<lparr>screen := surf\<rparr>)))"

text \<open>
  The search for a colour key: the loop that marks \<open>counts[pixels[i]]\<close> for
  \<open>i < len\<close>, and the loop \<open>for (int j = 1; j < 256; j++)\<close> that stops at the first
  unmarked index. \<open>unused\<close> starts as 0 and stays 0 when the second loop finds nothing.
  \<open>len\<close> is the \<open>uint\<close> made from \<open>frame->w * frame->h\<close>.
\<close>

function countPixels :: "byte list \<Rightarrow> nat \<Rightarrow> nat \<Rightarrow> bool list \<Rightarrow> error + bool list" where
  "countPixels px len i counts =
     (if i < len then
        (if i < length px then countPixels px len (i + 1) (counts[unat (px ! i) := True])
         else Inl MemoryFault)
      else Inr counts)"
  by pat_completeness auto
termination
  by (relation "measure (\<lambda>(px, len, i, counts). len - i)") auto

function findUnused :: "bool list \<Rightarrow> nat \<Rightarrow> byte" where
  "findUnused counts j =
     (if j < 256 then (if \<not> counts ! j then of_nat j else findUnused counts (j + 1))
      else 0)"
  by pat_completeness auto
termination
  by (relation "measure (\<lambda>(counts, j). 256 - j)") auto

definition colorKey :: "Surface \<Rightarrow> error + byte" where
  "colorKey frame =
     (let len = nat ((w frame * h frame) mod 4294967296) in
      case countPixels (pixels frame) len 0 (replicate 256 False) of
        Inl e \<Rightarrow> Inl e
      | Inr counts \<Rightarrow> Inr (findUnused counts 1))"

text \<open>The four \<open>copyRectToScreen\<close> calls of the workaround, in the source's order.\<close>

definition glitchWorkaround :: "Surface \<Rightarrow> Host \<Rightarrow> error + Host" where
  "glitchWorkaround frame s =
     (case copyRectToScreen (pixels frame) (getBasePtr frame (w frame - 188) 123)
             (pitch frame) (w frame - 188) 124 188 1 s of
        Inl e \<Rightarrow> Inl e
      | Inr s1 \<Rightarrow>
     (case copyRectToScreen (pixels frame) (getBasePtr frame (w frame - 188) 126)
             (pitch frame) (w frame - 188) 125 188 1 s1 of
        Inl e \<Rightarrow> Inl e
      | Inr s2 \<Rightarrow>
     (case copyRectToScreen (pixels frame) (getBasePtr frame 0 125)
             (pitch frame) 0 126 64 1 s2 of
        Inl e \<Rightarrow> Inl e
      | Inr s3 \<Rightarrow>
        copyRectToScreen (pixels frame) (getBasePtr frame 0 128)
             (pitch frame) 0 127 64 1 s3)))"

text \<open>
  One pass of the loop asks the host and the decoder; their answers for that pass are a
  \<open>Tick\<close>: \<open>decoderState\<close>, \<open>getCurFrame\<close> and \<open>getPalette\<close> are the decoder right
  after \<open>decodeNextFrame\<close>, whose result is \<open>None\<close> for a null frame; \<open>pollEvent\<close> is
  the queue of events the inner loop polls.
\<close>

datatype EventType = EVENT_KEYDOWN | EVENT_OTHER
datatype KeyCode = KEYCODE_ESCAPE | KEYCODE_OTHER
datatype Event = Event EventType KeyCode

record Tick =
  shouldQuit :: bool
  endOfVideo :: bool
  needsUpdate :: bool
  decodeNextFrame :: "Surface option"
  decoderState :: Decoder
  getCurFrame :: int
  getPalette :: "byte list"
  pollEvent :: "Event list"

definition subtitleColor :: "byte list" where
  "subtitleColor = [0xff, 0xff, 0x0]"

text \<open>
  The block \<open>if (frame) { ... }\<close>: the screen and calls after it, and the value of
  \<open>unused\<close>.
\<close>

definition showFrame ::
  "(Surface \<Rightarrow> int \<Rightarrow> byte \<Rightarrow> Surface \<Rightarrow> Surface) \<Rightarrow> bool \<Rightarrow> Tick \<Rightarrow> Host \<Rightarrow> error + (Host \<times> byte)" where
  "showFrame fx isFirstIntroVideo t s =
     (case decodeNextFrame t of
        None \<Rightarrow> Inr (s, 0)
      | Some frame \<Rightarrow>
          if isLowRes (decoderState t) then
            (case scale2x frame s of Inl e \<Rightarrow> Inl e | Inr s1 \<Rightarrow> Inr (s1, 0))
          else
            (case copyRectToScreen (pixels frame) 0 (pitch frame) 0 0 (w frame) (h frame) s of
               Inl e \<Rightarrow> Inl e
             | Inr s1 \<Rightarrow>
                 let currentFrame = getCurFrame t in
                 (case colorKey frame of
                    Inl e \<Rightarrow> Inl e
                  | Inr unused \<Rightarrow>
                      let s2 = render fx frame currentFrame unused s1 in
                      if isFirstIntroVideo then
                        (if currentFrame \<ge> 956 \<and> currentFrame \<le> 1038 then
                           (case glitchWorkaround frame s2 of
                              Inl e \<Rightarrow> Inl e
                            | Inr s3 \<Rightarrow> Inr (s3, unused))
                         else Inr (s2, unused))
                      else Inr (s2, unused))))"

text \<open>The body of \<open>if (_decoder->needsUpdate()) { ... }\<close>.\<close>

definition updateFrame ::
  "(Surface \<Rightarrow> int \<Rightarrow> byte \<Rightarrow> Surface \<Rightarrow> Surface) \<Rightarrow> bool \<Rightarrow> Tick \<Rightarrow> Host \<Rightarrow> error + Host" where
  "updateFrame fx isFirstIntroVideo t s =
     (case showFrame fx isFirstIntroVideo t s of
        Inl e \<Rightarrow> Inl e
      | Inr (s1, unused) \<Rightarrow>
         (case setPalette (getPalette t) 0 256 s1 of
            Inl e \<Rightarrow> Inl e
          | Inr s2 \<Rightarrow>
              if unused \<noteq> 0 then
                (case setPalette subtitleColor (unat unused) 1 s2 of
                   Inl e \<Rightarrow> Inl e
                 | Inr s3 \<Rightarrow> Inr (call UpdateScreen s3))
              else Inr (call UpdateScreen s2)))"

definition escapePressed :: "Event \<Rightarrow> bool" where
  "escapePressed ev = (case ev of Event ty kc \<Rightarrow> ty = EVENT_KEYDOWN \<and> kc = KEYCODE_ESCAPE)"

text \<open>
  The \<open>while\<close> loop, one \<open>Tick\<close> per pass. The loop ends when the host asks to quit,
  the video is over or Escape is pressed; when the answers run out before that, the
  loop has not returned and the result is \<open>None\<close>.
\<close>

fun playLoop ::
  "(Surface \<Rightarrow> int \<Rightarrow> byte \<Rightarrow> Surface \<Rightarrow> Surface) \<Rightarrow> bool \<Rightarrow> Tick list \<Rightarrow> Host \<Rightarrow> (error + Host) option" where
  "playLoop fx isFirstIntroVideo [] s = None"
| "playLoop fx isFirstIntroVideo (t # ts) s =
     (if \<not> shouldQuit t \<and> \<not> endOfVideo t then
        (case (if needsUpdate t then updateFrame fx isFirstIntroVideo t s else Inr s) of
           Inl e \<Rightarrow> Some (Inl e)
         | Inr s1 \<Rightarrow>
             if list_ex escapePressed (pollEvent t) then Some (Inr (call DirtyAllScreen s1))
             else playLoop fx isFirstIntroVideo ts (call (DelayMillis 10) s1))
      else Some (Inr (call DirtyAllScreen s)))"

text \<open>
  The state in which the loop starts its next pass after the passes \<open>ts\<close>, when none
  of them leaves the loop: \<open>None\<close> when one of them ends the loop, by quitting, by the
  end of the video, by Escape or by a fault.
\<close>

fun passes ::
  "(Surface \<Rightarrow> int \<Rightarrow> byte \<Rightarrow> Surface \<Rightarrow> Surface) \<Rightarrow> bool \<Rightarrow> Tick list \<Rightarrow> Host \<Rightarrow> Host option" where
  "passes fx isFirstIntroVideo [] s = Some s"
| "passes fx isFirstIntroVideo (t # ts) s =
     (if \<not> shouldQuit t \<and> \<not> endOfVideo t then
        (case (if needsUpdate t then updateFrame fx isFirstIntroVideo t s else Inr s) of
           Inl e \<Rightarrow> None
         | Inr s1 \<Rightarrow>
             if list_ex escapePressed (pollEvent t) then None
             else passes fx isFirstIntroVideo ts (call (DelayMillis 10) s1))
      else None)"

definition playVideo ::
  "(Surface \<Rightarrow> int \<Rightarrow> byte \<Rightarrow> Surface \<Rightarrow> Surface) \<Rightarrow> bool \<Rightarrow> Tick list \<Rightarrow> Host \<Rightarrow> (error + Host) option" where
  "playVideo fx isFirstIntroVideo ts s = playLoop fx isFirstIntroVideo ts (call Start s)"

section \<open>engines/toon/movie.cpp: play\<close>

text \<open>
  \<open>loadFile\<close> and \<open>isMusicMuted\<close> are answers of the host; \<open>error\<close> does not return.
  The video's path is its string.
\<close>

definition play ::
  "(Surface \<Rightarrow> int \<Rightarrow> byte \<Rightarrow> Surface \<Rightarrow> Surface) \<Rightarrow> string \<Rightarrow> int32 \<Rightarrow> bool \<Rightarrow> bool \<Rightarrow> Tick list \<Rightarrow>
   Movie \<times> Host \<Rightarrow> (error + Movie \<times> Host) option" where
  "play fx video flags loadFile isMusicMuted ts ms =
     (case ms of (m, s) \<Rightarrow>
      let isFirstIntroVideo = (video = ''209_1M.SMK'');
          m1 = m\<lparr>playing := True\<rparr>;
          s1 = (if flags AND 1 \<noteq> 0 then setMusicVolume 0 s else s);
          s2 = call (LoadFile video) s1
      in if \<not> loadFile then
           (if flags AND 2 \<noteq> 0 then Some (Inr (m1, s2))
            else Some (Inl (Fatal (''Unable to play video '' @ video))))
         else
           (case playVideo fx isFirstIntroVideo ts (call (SubtitleLoad video) s2) of
              None \<Rightarrow> None
            | Some (Inl e) \<Rightarrow> Some (Inl e)
            | Some (Inr s3) \<Rightarrow>
                let s4 = call (FlushPalette True) s3;
                    s5 = (if flags AND 1 \<noteq> 0
                          then setMusicVolume (if isMusicMuted then 0 else 255) s4 else s4);
                    s6 = call Close s5
                in Some (Inr (m1\<lparr>playing := False\<rparr>, s6))))"

section \<open>Sample inputs\<close>

text \<open>A channel at half volume on sound handle 7, and a mixer that has received nothing.\<close>

definition sampleAudio :: Audio where
  "sampleAudio =
     \<lparr>channel = \<lparr>soundHandle = 7, loop = 0, lVol = 128, rVol = 128, pitchShift = 0,
                  priority = 0, paused = False\<rparr>,
      mixer = []\<rparr>"

text \<open>
  Small inputs on which the definitions are run: a 2 by 2 frame in which the indices 0,
  1 and 2 occur, a screen of the same size, a renderer that draws nothing, and the
  answers of the host for one pass of the loop at frame 1000.
\<close>

definition sampleFrame :: Surface where
  "sampleFrame = \<lparr>w = 2, h = 2, pitch = 2, pixels = [1, 2, 0, 1]\<rparr>"

definition sampleHost :: Host where
  "sampleHost = \<lparr>screen = \<lparr>w = 2, h = 2, pitch = 2, pixels = [9, 9, 9, 9]\<rparr>,
                  palette = replicate 768 0, musicVolume = 255, calls = []\<rparr>"

definition noSubtitles :: "Surface \<Rightarrow> int \<Rightarrow> byte \<Rightarrow> Surface \<Rightarrow> Surface" where
  "noSubtitles frame frameNumber color scr = scr"

definition sampleTick :: "bool \<Rightarrow> Tick" where
  "sampleTick low =
     \<lparr>shouldQuit = False, endOfVideo = False, needsUpdate = True,
      decodeNextFrame = Some sampleFrame,
      decoderState = \<lparr>lowRes = low, getHeight = 2, fileStream = []\<rparr>,
      getCurFrame = 1000, getPalette = replicate 768 7, pollEvent = []\<rparr>"

definition lastTick :: Tick where
  "lastTick =
     \<lparr>shouldQuit = False, endOfVideo = True, needsUpdate = False,
      decodeNextFrame = None,
      decoderState = \<lparr>lowRes = False, getHeight = 2, fileStream = []\<rparr>,
      getCurFrame = 1001, getPalette = replicate 768 7, pollEvent = []\<rparr>"

text \<open>
  A frame of one row in which every index from 1 to 255 occurs, with a screen and the
  answers of the host to match.
\<close>

definition fullFrame :: Surface where
  "fullFrame = \<lparr>w = 255, h = 1, pitch = 255, pixels = map of_nat [1..<256]\<rparr>"

definition wideHost :: Host where
  "wideHost = \<lparr>screen = \<lparr>w = 255, h = 1, pitch = 255, pixels = replicate 255 0\<rparr>,
                palette = replicate 768 0, musicVolume = 255, calls = []\<rparr>"

definition fullTick :: Tick where
  "fullTick =
     \<lparr>shouldQuit = False, endOfVideo = False, needsUpdate = True,
      decodeNextFrame = Some fullFrame,
      decoderState = \<lparr>lowRes = False, getHeight = 1, fileStream = []\<rparr>,
      getCurFrame = 1000, getPalette = replicate 768 7, pollEvent = []\<rparr>"

text \<open>
  A low-res pass: a frame of five rows of two bytes, and a screen of five rows of three
  bytes.
\<close>

definition lowFrame :: Surface where
  "lowFrame = \<lparr>w = 2, h = 5, pitch = 2, pixels = [1, 2, 3, 4, 5, 6, 7, 8, 9, 10]\<rparr>"

definition tallHost :: Host where
  "tallHost = \<lparr>screen = \<lparr>w = 3, h = 5, pitch = 3, pixels = replicate 15 0\<rparr>,
                palette = replicate 768 0, musicVolume = 255, calls = []\<rparr>"

definition lowTick :: Tick where
  "lowTick =
     \<lparr>shouldQuit = False, endOfVideo = False, needsUpdate = True,
      decodeNextFrame = Some lowFrame,
      decoderState = \<lparr>lowRes = True, getHeight = 5, fileStream = []\<rparr>,
      getCurFrame = 1000, getPalette = replicate 768 7, pollEvent = []\<rparr>"

text \<open>
  A low-res pass in which the rows of the frame are longer than the rows of the screen:
  a frame of two rows of three bytes, and a screen of three rows of two bytes.
\<close>

definition spillFrame :: Surface where
  "spillFrame = \<lparr>w = 3, h = 2, pitch = 3, pixels = [1, 2, 3, 4, 5, 6]\<rparr>"

definition spillHost :: Host where
  "spillHost = \<lparr>screen = \<lparr>w = 2, h = 3, pitch = 2, pixels = [9, 9, 9, 9, 9, 9]\<rparr>,
                 palette = replicate 768 0, musicVolume = 255, calls = []\<rparr>"

definition spillTick :: Tick where
  "spillTick =
     \<lparr>shouldQuit = False, endOfVideo = False, needsUpdate = True,
      decodeNextFrame = Some spillFrame,
      decoderState = \<lparr>lowRes = True, getHeight = 2, fileStream = []\<rparr>,
      getCurFrame = 1000, getPalette = replicate 768 7, pollEvent = []\<rparr>"

text \<open>
  A frame and a screen of 640 by 400, the size of the game's videos, at frame 1000.
  Every pixel of the frame holds the number of its row (modulo 256).
\<close>

definition bigFrame :: Surface where
  "bigFrame = \<lparr>w = 640, h = 400, pitch = 640,
               pixels = map (\<lambda>i. of_nat (i div 640)) [0..<256000]\<rparr>"

definition bigHost :: Host where
  "bigHost = \<lparr>screen = \<lparr>w = 640, h = 400, pitch = 640, pixels = replicate 256000 0\<rparr>,
               palette = replicate 768 0, musicVolume = 255, calls = []\<rparr>"

definition bigTick :: Tick where
  "bigTick =
     \<lparr>shouldQuit = False, endOfVideo = False, needsUpdate = True,
      decodeNextFrame = Some bigFrame,
      decoderState = \<lparr>lowRes = False, getHeight = 400, fileStream = []\<rparr>,
      getCurFrame = 1000, getPalette = replicate 768 7, pollEvent = []\<rparr>"

text \<open>The recursive equations of the loops are unfolded by hand, one pass at a time.\<close>

declare scaleRows.simps [simp del] countPixels.simps [simp del] findUnused.simps [simp del]

text \<open>
  The calls the workaround makes for a frame, with the arguments of the source: the
  offset of the source pixels in the frame, the frame's pitch, then x, y, width and
  height on the screen.
\<close>

definition glitchWorkaroundCalls :: "Surface \<Rightarrow> HostCall list" where
  "glitchWorkaroundCalls frame =
     [CopyRectToScreen (getBasePtr frame (w frame - 188) 123) (pitch frame) (w frame - 188) 124 188 1,
      CopyRectToScreen (getBasePtr frame (w frame - 188) 126) (pitch frame) (w frame - 188) 125 188 1,
      CopyRectToScreen (getBasePtr frame 0 125) (pitch frame) 0 126 64 1,
      CopyRectToScreen (getBasePtr frame 0 128) (pitch frame) 0 127 64 1]"

section \<open>Arithmetic of C ints\<close>

lemma sint32_bounds: "- 2147483648 \<le> sint (a::int32) \<and> sint a < 2147483648"
  using sint_ge [of a] sint_lt [of a] by simp

lemma sdiv2_bounds:
  fixes k :: int
  assumes "- 2147483648 \<le> k" and "k < 2147483648"
  shows "- 2147483648 \<le> k sdiv 2 \<and> k sdiv 2 < 2147483648"
proof (cases "0 \<le> k")
  case True
  then have e: "k sdiv 2 = k div 2"
    by (simp add: signed_divide_int_def sgn_if)
  show ?thesis unfolding e using True assms by linarith
next
  case False
  then have e: "k sdiv 2 = - ((- k) div 2)"
    by (simp add: signed_divide_int_def sgn_if)
  show ?thesis unfolding e using False assms by linarith
qed

lemma sint_c_div2: "sint (c_div a 2) = sint a sdiv 2"
proof -
  have "- 2147483648 \<le> sint a sdiv 2 \<and> sint a sdiv 2 < 2147483648"
    using sint32_bounds [of a] sdiv2_bounds by blast
  then show ?thesis
    by (simp add: c_div_def sint_sbintrunc' signed_take_bit_int_eq_self_iff)
qed

lemma sint_add_no_overflow:
  fixes a b :: int32
  assumes "- 2147483648 \<le> sint a + sint b" and "sint a + sint b < 2147483648"
  shows "sint (a + b) = sint a + sint b"
  using assms by (simp add: sint_word_add signed_take_bit_int_eq_self_iff)

lemma sint_diff_no_overflow:
  fixes a b :: int32
  assumes "- 2147483648 \<le> sint a - sint b" and "sint a - sint b < 2147483648"
  shows "sint (a - b) = sint a - sint b"
  using assms by (simp add: sint_word_diff signed_take_bit_int_eq_self_iff)

section \<open>AudioChannel: cached scalars\<close>

text \<open>
  C4. After \<open>setVolume(l, r)\<close>, \<open>getVolume\<close> returns exactly \<open>(l, r)\<close>; after
  \<open>setPriority(p)\<close>, \<open>getPriority\<close> returns exactly \<open>p\<close>; \<open>isPaused\<close> returns the
  cached flag. No getter consults the host mixer: each one returns the same value
  whatever the mixer holds, and leaves the channel and the mixer's call sequence as
  they were.
\<close>

theorem AudioChannel_cached_scalars:
  "fst (getVolume (setVolume l r a)) = (l, r)
   \<and> fst (getPriority (setPriority p a)) = p
   \<and> fst (isPaused a) = paused (channel a)
   \<and> snd (getVolume a) = a \<and> snd (getPriority a) = a \<and> snd (isPaused a) = a
   \<and> fst (getVolume (a\<lparr>mixer := m\<rparr>)) = fst (getVolume a)
   \<and> fst (getPriority (a\<lparr>mixer := m\<rparr>)) = fst (getPriority a)
   \<and> fst (isPaused (a\<lparr>mixer := m\<rparr>)) = fst (isPaused a)"
  by (simp add: getVolume_def setVolume_def getPriority_def setPriority_def isPaused_def
      Let_def)

lemma ucast_as_sint: "(ucast (x :: int32) :: 8 word) = word_of_int (sint x)"
  by (rule bit_word_eqI) (auto simp add: bit_simps)

lemma uint_narrow:
  assumes "0 \<le> sint (x :: int32)" and "sint x \<le> 255"
  shows "uint (ucast x :: byte) = sint x"
proof -
  have "uint (word_of_int (sint x) :: 8 word) = sint x mod 256"
    using uint_word_of_int [of "sint x", where 'a = 8] by simp
  also have "\<dots> = sint x" using assms by simp
  finally show ?thesis unfolding ucast_as_sint .
qed

lemma sint_narrow:
  assumes "- 128 \<le> sint (x :: int32)" and "sint x \<le> 127"
  shows "sint (ucast x :: int8) = sint x"
proof -
  have "sint (word_of_int (sint x) :: 8 word) = signed_take_bit 7 (sint x)"
    using sint_sbintrunc' [of "sint x", where 'a = 8] by simp
  also have "\<dots> = sint x" using assms by (simp add: signed_take_bit_int_eq_self_iff)
  finally show ?thesis unfolding ucast_as_sint .
qed

text \<open>
  C5, as stated, fails where a quotient does not fit the mixer's parameter. With
  \<open>lvol = rvol = 256\<close> the volume \<open>(rvol + lvol) / 2\<close> is 256, and the mixer receives
  the byte 0; with \<open>lvol = 0\<close> and \<open>rvol = 256\<close> the balance \<open>(rvol - lvol) / 2\<close> is 128,
  and the mixer receives the \<open>int8\<close> -128. Below the two ranges it is the same: with
  \<open>lvol = rvol = -1\<close> the volume is -1 and the mixer receives the byte 255; with
  \<open>lvol = 258\<close> and \<open>rvol = 0\<close> the balance is -129 and the mixer receives the \<open>int8\<close>
  127.
\<close>

theorem setVolume_narrowing_counterexample:
  "mixer (setVolume 256 256 sampleAudio) = [SetChannelVolume 7 0, SetChannelBalance 7 0]
   \<and> sint (c_div ((256::int32) + 256) 2) = 256
   \<and> mixer (setVolume 0 256 sampleAudio) = [SetChannelVolume 7 128, SetChannelBalance 7 128]
   \<and> sint (128 :: int8) = - 128
   \<and> sint (c_div ((256::int32) - 0) 2) = 128
   \<and> mixer (setVolume (- 1) (- 1) sampleAudio) = [SetChannelVolume 7 255, SetChannelBalance 7 0]
   \<and> sint (c_div ((- 1 :: int32) + (- 1)) 2) = - 1
   \<and> mixer (setVolume 258 0 sampleAudio) = [SetChannelVolume 7 129, SetChannelBalance 7 127]
   \<and> sint (c_div ((0::int32) - 258) 2) = - 129"
  by code_simp

text \<open>
  C5, amended. For all \<open>lvol\<close>, \<open>rvol\<close> whose volume \<open>(rvol + lvol) / 2\<close> lies in 0..255
  and whose balance \<open>(rvol - lvol) / 2\<close> lies in -128..127, \<open>setVolume\<close> sends the mixer,
  for the channel's sound handle, first that volume and then that balance, and nothing
  else. Each quotient is the C one, truncated towards zero: its sign is that of the
  dividend and its magnitude is half the dividend's magnitude, rounded down. Where the
  sum or the difference does not overflow a C int, the dividend is the sum or the
  difference of the two integers.
\<close>

theorem setVolume_forwards_to_mixer:
  assumes "0 \<le> sint (rvol + lvol) sdiv 2" and "sint (rvol + lvol) sdiv 2 \<le> 255"
    and "- 128 \<le> sint (rvol - lvol) sdiv 2" and "sint (rvol - lvol) sdiv 2 \<le> 127"
  shows "(\<exists>v b. mixer (setVolume lvol rvol a) =
            mixer a @ [SetChannelVolume (soundHandle (channel a)) v,
                       SetChannelBalance (soundHandle (channel a)) b]
          \<and> uint v = sgn (sint (rvol + lvol)) * (\<bar>sint (rvol + lvol)\<bar> div 2)
          \<and> sint b = sgn (sint (rvol - lvol)) * (\<bar>sint (rvol - lvol)\<bar> div 2))
   \<and> (- 2147483648 \<le> sint rvol + sint lvol \<and> sint rvol + sint lvol < 2147483648 \<longrightarrow>
        sint (rvol + lvol) = sint rvol + sint lvol)
   \<and> (- 2147483648 \<le> sint rvol - sint lvol \<and> sint rvol - sint lvol < 2147483648 \<longrightarrow>
        sint (rvol - lvol) = sint rvol - sint lvol)"
proof -
  let ?v = "ucast (c_div (rvol + lvol) 2) :: byte"
  let ?b = "ucast (c_div (rvol - lvol) 2) :: int8"
  have m: "mixer (setVolume lvol rvol a) =
            mixer a @ [SetChannelVolume (soundHandle (channel a)) ?v,
                       SetChannelBalance (soundHandle (channel a)) ?b]"
    by (simp add: setVolume_def setChannelVolume_def setChannelBalance_def Let_def)
  have v: "uint ?v = sgn (sint (rvol + lvol)) * (\<bar>sint (rvol + lvol)\<bar> div 2)"
    using uint_narrow [of "c_div (rvol + lvol) 2"] assms(1,2)
    by (simp add: sint_c_div2 signed_divide_int_def)
  have b: "sint ?b = sgn (sint (rvol - lvol)) * (\<bar>sint (rvol - lvol)\<bar> div 2)"
    using sint_narrow [of "c_div (rvol - lvol) 2"] assms(3,4)
    by (simp add: sint_c_div2 signed_divide_int_def)
  from m v b have "\<exists>v b. mixer (setVolume lvol rvol a) =
            mixer a @ [SetChannelVolume (soundHandle (channel a)) v,
                       SetChannelBalance (soundHandle (channel a)) b]
          \<and> uint v = sgn (sint (rvol + lvol)) * (\<bar>sint (rvol + lvol)\<bar> div 2)
          \<and> sint b = sgn (sint (rvol - lvol)) * (\<bar>sint (rvol - lvol)\<bar> div 2)"
    by blast
  then show ?thesis
    by (simp add: sint_add_no_overflow sint_diff_no_overflow)
qed

theorem setVolume_forwards_to_mixer_witness:
  "(\<exists>v b. mixer (setVolume 256 255 sampleAudio) = [SetChannelVolume 7 v, SetChannelBalance 7 b]
      \<and> uint v = 255 \<and> sint b = 0)
   \<and> sint ((255::int32) + 256) = 511 \<and> sint ((255::int32) - 256) = - 1"
proof -
  have h: "0 \<le> sint ((255::int32) + 256) sdiv 2" "sint ((255::int32) + 256) sdiv 2 \<le> 255"
    "- 128 \<le> sint ((255::int32) - 256) sdiv 2" "sint ((255::int32) - 256) sdiv 2 \<le> 127"
    by (simp_all add: signed_divide_int_def)
  from setVolume_forwards_to_mixer [OF h, of sampleAudio] show ?thesis
    by (simp add: sampleAudio_def)
qed

section \<open>The decoder\<close>

lemma uint_le16:
  "uint (ucast (b0::byte) OR push_bit 8 (ucast (b1::byte)) :: uint16) = uint b0 + 256 * uint b1"
proof -
  have d: "(ucast b0 :: uint16) + push_bit 8 (ucast b1) = ucast b0 OR push_bit 8 (ucast b1)"
    by (rule disjunctive_add) (auto simp add: bit_simps dest: bit_imp_le_length)
  have b0: "uint b0 < 256" using uint_lt2p [of b0] by simp
  have b1: "uint b1 < 256" using uint_lt2p [of b1] by simp
  have u0: "uint (ucast b0 :: uint16) = uint b0" by (simp add: uint_up_ucast is_up)
  have u1: "uint (push_bit 8 (ucast b1 :: uint16)) = 256 * uint b1"
    using b1 by (simp add: push_bit_eq_mult uint_word_ariths uint_up_ucast is_up)
  show ?thesis
    unfolding d [symmetric] using b0 b1 by (simp add: uint_word_ariths u0 u1)
qed

lemma uint_sdiv2: "uint (x::uint16) sdiv 2 = uint x div 2"
  by (simp add: signed_divide_int_def sgn_if)

text \<open>
  C6. A chunk with \<open>track = 1\<close> and \<open>chunkSize = 4\<close> is a resolution record: the
  handler takes four bytes from the stream, two 16-bit little-endian values, and sets
  the low-res flag to whether the second value is half the video height, the half
  rounded down. Every other chunk is handed to the base handler with the same
  arguments and the same decoder, and the base handler's result is the result.
\<close>

theorem handleAudioTrack_resolution_record:
  "(fileStream d = a0 # a1 # b0 # b1 # rest \<longrightarrow>
      handleAudioTrack base 1 4 unpackedSize d =
        Inr (d\<lparr>fileStream := rest,
               lowRes := (uint b0 + 256 * uint b1 = uint (getHeight d) div 2)\<rparr>))
   \<and> (\<not> (track = 1 \<and> chunkSize = 4) \<longrightarrow>
      handleAudioTrack base track chunkSize unpackedSize d =
        base track chunkSize unpackedSize d)"
  by (simp add: handleAudioTrack_def uint_le16 uint_sdiv2)

theorem handleAudioTrack_resolution_record_witness:
  "handleAudioTrack (\<lambda>t c u x. Inr x) 1 4 0
      \<lparr>lowRes = False, getHeight = 400, fileStream = [0x40, 0x01, 0xC8, 0x00, 7]\<rparr>
     = Inr \<lparr>lowRes = True, getHeight = 400, fileStream = [7]\<rparr>
   \<and> handleAudioTrack (\<lambda>t c u x. Inr x) 1 4 0
      \<lparr>lowRes = True, getHeight = 400, fileStream = [0x80, 0x02, 0x90, 0x01]\<rparr>
     = Inr \<lparr>lowRes = False, getHeight = 400, fileStream = []\<rparr>
   \<and> handleAudioTrack (\<lambda>t c u x. Inl EndOfStream) 1 8 0
      \<lparr>lowRes = True, getHeight = 400, fileStream = [1, 2, 3, 4]\<rparr>
     = Inl EndOfStream"
  using handleAudioTrack_resolution_record
          [of "\<lparr>lowRes = False, getHeight = 400, fileStream = [0x40, 0x01, 0xC8, 0x00, 7]\<rparr>"
              "0x40" "0x01" "0xC8" "0x00" "[7]" "\<lambda>t c u x. Inr x" 0]
        handleAudioTrack_resolution_record
          [of "\<lparr>lowRes = True, getHeight = 400, fileStream = [0x80, 0x02, 0x90, 0x01]\<rparr>"
              "0x80" "0x02" "0x90" "0x01" "[]" "\<lambda>t c u x. Inr x" 0]
        handleAudioTrack_resolution_record
          [where track = 1 and chunkSize = 8 and base = "\<lambda>t c u x. Inl EndOfStream"
             and unpackedSize = 0
             and d = "\<lparr>lowRes = True, getHeight = 400, fileStream = [1, 2, 3, 4]\<rparr>"]
  by simp

text \<open>
  C10. \<open>loadStream\<close> returns false exactly when the base loader does, and when it
  returns true the low-res flag is false, so the decoder reports not-low-res right
  after every successful load, as it does right after construction.
\<close>

theorem loadStream_resets_lowRes:
  "fst (loadStream baseLoadStream stream d) = fst (baseLoadStream stream d)
   \<and> (fst (loadStream baseLoadStream stream d) \<longrightarrow>
        \<not> isLowRes (snd (loadStream baseLoadStream stream d)))
   \<and> \<not> isLowRes (ToonstruckSmackerDecoder d)"
  by (simp add: loadStream_def isLowRes_def ToonstruckSmackerDecoder_def split: prod.splits)

theorem loadStream_resets_lowRes_witness:
  "loadStream (\<lambda>(st::nat) x. (True, x\<lparr>getHeight := 400\<rparr>)) 0
      \<lparr>lowRes = True, getHeight = 0, fileStream = []\<rparr>
     = (True, \<lparr>lowRes = False, getHeight = 400, fileStream = []\<rparr>)
   \<and> \<not> isLowRes (snd (loadStream (\<lambda>(st::nat) x. (True, x\<lparr>getHeight := 400\<rparr>)) 0
      \<lparr>lowRes = True, getHeight = 0, fileStream = []\<rparr>))"
  using loadStream_resets_lowRes
          [of "\<lambda>(st::nat) x. (True, x\<lparr>getHeight := 400\<rparr>)" 0
              "\<lparr>lowRes = True, getHeight = 0, fileStream = []\<rparr>"]
  by (simp add: loadStream_def)

section \<open>The driver and what it owns\<close>

lemma foldr_max_ge: "x \<in> set xs \<Longrightarrow> x \<le> foldr max xs (0::nat)"
  by (induction xs) auto

lemma new_fresh: "fst (new st) \<notin> set (live st) \<and> fst (new st) \<noteq> 0"
  using foldr_max_ge [of "Suc (foldr max (live st) 0)" "live st"]
  by (auto simp: new_def Let_def)

lemma new_live: "live (snd (new st)) = fst (new st) # live st"
  by (simp add: new_def Let_def)

text \<open>
  C7. The driver holds one decoder and one subtitle renderer: the decoder it is given
  and a renderer it creates, a new object distinct from every live one. Destroying the
  driver deletes both: neither is live afterwards, and every other object is as live as
  it was before the driver was made.
\<close>

theorem Movie_owns_decoder_and_subtitle:
  assumes "dec \<noteq> 0" and "dec \<in> set (live st)"
  shows "decoderPtr (fst (Movie_ctor dec st)) = dec
     \<and> subtitlePtr (fst (Movie_ctor dec st)) \<notin> set (live st)
     \<and> subtitlePtr (fst (Movie_ctor dec st)) \<noteq> 0
     \<and> live (snd (Movie_ctor dec st)) = subtitlePtr (fst (Movie_ctor dec st)) # live st
     \<and> (\<exists>st2. Movie_dtor (fst (Movie_ctor dec st)) (snd (Movie_ctor dec st)) = Inr st2
          \<and> decoderPtr (fst (Movie_ctor dec st)) \<notin> set (live st2)
          \<and> subtitlePtr (fst (Movie_ctor dec st)) \<notin> set (live st2)
          \<and> set (live st2) = set (live st) - {dec})"
proof -
  obtain sub st1 where n: "new st = (sub, st1)" by (cases "new st")
  have f: "sub \<notin> set (live st)" "sub \<noteq> 0" and l: "live st1 = sub # live st"
    using new_fresh [of st] new_live [of st] n by simp_all
  have ne: "sub \<noteq> dec" using f assms by auto
  have c: "Movie_ctor dec st = (\<lparr>playing = False, decoderPtr = dec, subtitlePtr = sub\<rparr>, st1)"
    by (simp add: Movie_ctor_def n)
  have d1: "delete dec st1 = Inr (st1\<lparr>live := sub # removeAll dec (live st)\<rparr>)"
    using assms ne by (simp add: delete_def l)
  have d2: "delete sub (st1\<lparr>live := sub # removeAll dec (live st)\<rparr>)
              = Inr (st1\<lparr>live := removeAll dec (live st)\<rparr>)"
    using f by (simp add: delete_def)
  have d: "Movie_dtor \<lparr>playing = False, decoderPtr = dec, subtitlePtr = sub\<rparr> st1
             = Inr (st1\<lparr>live := removeAll dec (live st)\<rparr>)"
    by (simp add: Movie_dtor_def d1 d2)
  show ?thesis
    unfolding c using f l d by auto
qed

theorem Movie_owns_decoder_and_subtitle_witness:
  "Movie_ctor 3 \<lparr>live = [3, 5]\<rparr>
     = (\<lparr>playing = False, decoderPtr = 3, subtitlePtr = 6\<rparr>, \<lparr>live = [6, 3, 5]\<rparr>)
   \<and> Movie_dtor \<lparr>playing = False, decoderPtr = 3, subtitlePtr = 6\<rparr> \<lparr>live = [6, 3, 5]\<rparr>
     = Inr \<lparr>live = [5]\<rparr>"
proof -
  have c: "Movie_ctor 3 \<lparr>live = [3, 5]\<rparr>
     = (\<lparr>playing = False, decoderPtr = 3, subtitlePtr = 6\<rparr>, \<lparr>live = [6, 3, 5]\<rparr>)"
    by (simp add: Movie_ctor_def new_def)
  have "(3::nat) \<noteq> 0" and "(3::nat) \<in> set (live \<lparr>live = [3, 5]\<rparr>)" by simp_all
  from Movie_owns_decoder_and_subtitle [OF this] c show ?thesis
    by (simp add: Movie_dtor_def delete_def)
qed

section \<open>The loop returns\<close>

text \<open>
  A pass that neither ends the video nor sees Escape runs the frame code when the
  decoder needs an update and goes on with the next pass. The loop returns as soon as
  the host asks to quit or the decoder reports the end of the video, so \<open>playVideo\<close>
  and \<open>play\<close> return on every sequence of answers in which one of the two happens.
\<close>

lemma playLoop_pass:
  assumes "\<not> shouldQuit t" and "\<not> endOfVideo t" and "needsUpdate t"
    and "updateFrame fx isFirst t s = Inr s1"
    and "\<not> list_ex escapePressed (pollEvent t)"
  shows "playLoop fx isFirst (t # ts) s = playLoop fx isFirst ts (call (DelayMillis 10) s1)"
  using assms by simp

lemma playLoop_returns:
  assumes "list_ex (\<lambda>t. shouldQuit t \<or> endOfVideo t) ts"
  shows "\<exists>r. playLoop fx isFirst ts s = Some r"
  using assms
proof (induction ts arbitrary: s)
  case Nil
  then show ?case by simp
next
  case (Cons t ts)
  show ?case
  proof (cases "shouldQuit t \<or> endOfVideo t")
    case True
    then show ?thesis by auto
  next
    case False
    with Cons.prems have rest: "list_ex (\<lambda>t. shouldQuit t \<or> endOfVideo t) ts" by simp
    show ?thesis
    proof (cases "if needsUpdate t then updateFrame fx isFirst t s else Inr s")
      case (Inl e)
      with False show ?thesis by simp
    next
      case (Inr s1)
      show ?thesis
      proof (cases "list_ex escapePressed (pollEvent t)")
        case True
        with False Inr show ?thesis by simp
      next
        case esc: False
        from Cons.IH [OF rest, of "call (DelayMillis 10) s1"]
        show ?thesis using False Inr esc by simp
      qed
    qed
  qed
qed

lemma play_returns:
  assumes "\<not> loadFile \<or> list_ex (\<lambda>t. shouldQuit t \<or> endOfVideo t) ts"
  shows "\<exists>r. play fx video flags loadFile isMusicMuted ts (m, s) = Some r"
proof (cases loadFile)
  case False
  then show ?thesis by (simp add: play_def Let_def)
next
  case True
  with assms have "list_ex (\<lambda>t. shouldQuit t \<or> endOfVideo t) ts" by simp
  from playLoop_returns [OF this] obtain r where
    "playVideo fx (video = ''209_1M.SMK'') ts
       (call (SubtitleLoad video) (call (LoadFile video)
          (if flags AND 1 \<noteq> 0 then setMusicVolume 0 s else s))) = Some r"
    unfolding playVideo_def by blast
  with True show ?thesis
    by (cases r) (simp_all add: play_def Let_def)
qed

section \<open>Frames: the calls and the colour key\<close>

lemma unat_byte_lt: "unat (b::byte) < 256"
  using unsigned_less [of b, where 'a = nat] by simp

lemma countPixels_ok:
  "len \<le> length px \<Longrightarrow> length counts = 256 \<Longrightarrow>
   \<exists>c. countPixels px len i counts = Inr c \<and> length c = 256
     \<and> (\<forall>j<256. c ! j = (counts ! j \<or> (\<exists>k. i \<le> k \<and> k < len \<and> unat (px ! k) = j)))"
proof (induction px len i counts rule: countPixels.induct)
  case (1 px len i counts)
  show ?case
  proof (cases "i < len")
    case False
    then show ?thesis using "1.prems" by (auto simp add: countPixels.simps [of px len i counts])
  next
    case True
    then have il: "i < length px" using "1.prems" by simp
    let ?c1 = "counts[unat (px ! i) := True]"
    have "length ?c1 = 256" using "1.prems" by simp
    from "1.IH" [OF True il "1.prems"(1) this]
    obtain c where c: "countPixels px len (i + 1) ?c1 = Inr c" "length c = 256"
      "\<forall>j<256. c ! j = (?c1 ! j \<or> (\<exists>k. i + 1 \<le> k \<and> k < len \<and> unat (px ! k) = j))"
      by blast
    have e: "countPixels px len i counts = Inr c"
      using True il c(1) by (simp add: countPixels.simps [of px len i counts])
    have "c ! j = (counts ! j \<or> (\<exists>k. i \<le> k \<and> k < len \<and> unat (px ! k) = j))" if j: "j < 256" for j
    proof -
      have a: "?c1 ! j = (j = unat (px ! i) \<or> counts ! j)"
        using j "1.prems" unat_byte_lt [of "px ! i"] by (auto simp add: nth_list_update)
      have b: "(\<exists>k. i \<le> k \<and> k < len \<and> unat (px ! k) = j)
                 = (unat (px ! i) = j \<or> (\<exists>k. i + 1 \<le> k \<and> k < len \<and> unat (px ! k) = j))"
      proof
        assume "\<exists>k. i \<le> k \<and> k < len \<and> unat (px ! k) = j"
        then obtain k where k: "i \<le> k" "k < len" "unat (px ! k) = j" by blast
        show "unat (px ! i) = j \<or> (\<exists>k. i + 1 \<le> k \<and> k < len \<and> unat (px ! k) = j)"
        proof (cases "k = i")
          case True
          with k show ?thesis by simp
        next
          case False
          with k have "i + 1 \<le> k" by simp
          with k show ?thesis by blast
        qed
      next
        assume r: "unat (px ! i) = j \<or> (\<exists>k. i + 1 \<le> k \<and> k < len \<and> unat (px ! k) = j)"
        then show "\<exists>k. i \<le> k \<and> k < len \<and> unat (px ! k) = j"
        proof
          assume "unat (px ! i) = j"
          with True show ?thesis by blast
        next
          assume "\<exists>k. i + 1 \<le> k \<and> k < len \<and> unat (px ! k) = j"
          then obtain k where "i + 1 \<le> k" "k < len" "unat (px ! k) = j" by blast
          then have "i \<le> k \<and> k < len \<and> unat (px ! k) = j" by simp
          then show ?thesis by blast
        qed
      qed
      have "c ! j = (?c1 ! j \<or> (\<exists>k. i + 1 \<le> k \<and> k < len \<and> unat (px ! k) = j))"
        using c(3) j by (rule_tac mp [OF spec [of _ j]])
      also have "\<dots> = (counts ! j \<or> (unat (px ! i) = j \<or> (\<exists>k. i + 1 \<le> k \<and> k < len \<and> unat (px ! k) = j)))"
        unfolding a by blast
      finally show ?thesis unfolding b [symmetric] .
    qed
    with e c(2) show ?thesis by blast
  qed
qed


lemma unat_of_nat_byte: "j < 256 \<Longrightarrow> unat (of_nat j :: byte) = j"
  by (simp add: unat_of_nat)

lemma findUnused_spec:
  "1 \<le> j \<Longrightarrow>
   (findUnused c j = 0 \<and> (\<forall>i. j \<le> i \<and> i < 256 \<longrightarrow> c ! i))
   \<or> (j \<le> unat (findUnused c j) \<and> unat (findUnused c j) < 256 \<and> \<not> c ! unat (findUnused c j)
       \<and> (\<forall>i. j \<le> i \<and> i < unat (findUnused c j) \<longrightarrow> c ! i))"
proof (induction c j rule: findUnused.induct)
  case (1 c j)
  show ?case
  proof (cases "j < 256")
    case False
    then show ?thesis by (auto simp add: findUnused.simps [of c j])
  next
    case True
    show ?thesis
    proof (cases "c ! j")
      case False
      then have "findUnused c j = of_nat j"
        using True by (simp add: findUnused.simps [of c j])
      then show ?thesis using True False by (auto simp add: unat_of_nat_byte)
    next
      case cj: True
      then have e: "findUnused c j = findUnused c (j + 1)"
        using True by (simp add: findUnused.simps [of c j])
      have ih: "(findUnused c (j + 1) = 0 \<and> (\<forall>i. j + 1 \<le> i \<and> i < 256 \<longrightarrow> c ! i))
        \<or> (j + 1 \<le> unat (findUnused c (j + 1)) \<and> unat (findUnused c (j + 1)) < 256
            \<and> \<not> c ! unat (findUnused c (j + 1))
            \<and> (\<forall>i. j + 1 \<le> i \<and> i < unat (findUnused c (j + 1)) \<longrightarrow> c ! i))"
        using "1.IH" [OF True] cj by simp
      have all: "c ! i" if "j \<le> i" and "i < B" and r: "\<forall>k. j + 1 \<le> k \<and> k < B \<longrightarrow> c ! k" for i B
      proof (cases "i = j")
        case True
        with cj show ?thesis by simp
      next
        case False
        with that have "j + 1 \<le> i \<and> i < B" by simp
        with r show ?thesis by simp
      qed
      let ?u = "findUnused c (j + 1)"
      from ih show ?thesis unfolding e
      proof
        assume a: "?u = 0 \<and> (\<forall>i. j + 1 \<le> i \<and> i < 256 \<longrightarrow> c ! i)"
        have "\<forall>i. j \<le> i \<and> i < 256 \<longrightarrow> c ! i"
        proof (intro allI impI)
          fix i assume "j \<le> i \<and> i < 256"
          then show "c ! i" using all [of i 256] a by simp
        qed
        with a have "?u = 0 \<and> (\<forall>i. j \<le> i \<and> i < 256 \<longrightarrow> c ! i)" by simp
        then show "(?u = 0 \<and> (\<forall>i. j \<le> i \<and> i < 256 \<longrightarrow> c ! i))
          \<or> (j \<le> unat ?u \<and> unat ?u < 256 \<and> \<not> c ! unat ?u
            \<and> (\<forall>i. j \<le> i \<and> i < unat ?u \<longrightarrow> c ! i))" by (rule disjI1)
      next
        assume a: "j + 1 \<le> unat ?u \<and> unat ?u < 256 \<and> \<not> c ! unat ?u
            \<and> (\<forall>i. j + 1 \<le> i \<and> i < unat ?u \<longrightarrow> c ! i)"
        have "\<forall>i. j \<le> i \<and> i < unat ?u \<longrightarrow> c ! i"
        proof (intro allI impI)
          fix i assume "j \<le> i \<and> i < unat ?u"
          then show "c ! i" using all [of i "unat ?u"] a by simp
        qed
        with a have "j \<le> unat ?u \<and> unat ?u < 256 \<and> \<not> c ! unat ?u
            \<and> (\<forall>i. j \<le> i \<and> i < unat ?u \<longrightarrow> c ! i)" by simp
        then show "(?u = 0 \<and> (\<forall>i. j \<le> i \<and> i < 256 \<longrightarrow> c ! i))
          \<or> (j \<le> unat ?u \<and> unat ?u < 256 \<and> \<not> c ! unat ?u
            \<and> (\<forall>i. j \<le> i \<and> i < unat ?u \<longrightarrow> c ! i))" by (rule disjI2)
      qed
    qed
  qed
qed


lemma copyRectToScreen_Inr:
  assumes "copyRectToScreen buf off pch x y cw ch s = Inr s'"
  shows "calls s' = calls s @ [CopyRectToScreen off pch x y cw ch]
     \<and> palette s' = palette s \<and> musicVolume s' = musicVolume s"
  using assms by (auto simp: copyRectToScreen_def call_def split: if_splits sum.splits)

lemma glitchWorkaround_Inr:
  assumes "glitchWorkaround frame s = Inr s'"
  shows "calls s' = calls s @ glitchWorkaroundCalls frame
     \<and> palette s' = palette s \<and> musicVolume s' = musicVolume s"
proof -
  from assms obtain s1 s2 s3 where
    c1: "copyRectToScreen (pixels frame) (getBasePtr frame (w frame - 188) 123)
             (pitch frame) (w frame - 188) 124 188 1 s = Inr s1" and
    c2: "copyRectToScreen (pixels frame) (getBasePtr frame (w frame - 188) 126)
             (pitch frame) (w frame - 188) 125 188 1 s1 = Inr s2" and
    c3: "copyRectToScreen (pixels frame) (getBasePtr frame 0 125)
             (pitch frame) 0 126 64 1 s2 = Inr s3" and
    c4: "copyRectToScreen (pixels frame) (getBasePtr frame 0 128)
             (pitch frame) 0 127 64 1 s3 = Inr s'"
    by (auto simp: glitchWorkaround_def split: sum.splits)
  show ?thesis
    using copyRectToScreen_Inr [OF c1] copyRectToScreen_Inr [OF c2]
      copyRectToScreen_Inr [OF c3] copyRectToScreen_Inr [OF c4]
    by (simp add: glitchWorkaroundCalls_def)
qed

lemma showFrame_normal:
  assumes "decodeNextFrame t = Some frame" and "\<not> isLowRes (decoderState t)"
    and "showFrame fx isFirst t s = Inr (s', u)"
  shows "\<exists>s1. copyRectToScreen (pixels frame) 0 (pitch frame) 0 0 (w frame) (h frame) s = Inr s1
     \<and> colorKey frame = Inr u
     \<and> (if isFirst \<and> 956 \<le> getCurFrame t \<and> getCurFrame t \<le> 1038
        then glitchWorkaround frame (render fx frame (getCurFrame t) u s1) = Inr s'
        else s' = render fx frame (getCurFrame t) u s1)"
  using assms by (auto simp: showFrame_def Let_def split: sum.splits if_splits)

lemma showFrame_calls:
  assumes "decodeNextFrame t = Some frame" and "\<not> isLowRes (decoderState t)"
    and "showFrame fx isFirst t s = Inr (s', u)"
  shows "calls s' = calls s @
           [CopyRectToScreen 0 (pitch frame) 0 0 (w frame) (h frame),
            Render frame (getCurFrame t) u] @
           (if isFirst \<and> 956 \<le> getCurFrame t \<and> getCurFrame t \<le> 1038
            then glitchWorkaroundCalls frame else [])
     \<and> palette s' = palette s \<and> musicVolume s' = musicVolume s"
proof -
  from showFrame_normal [OF assms] obtain s1 where
    c: "copyRectToScreen (pixels frame) 0 (pitch frame) 0 0 (w frame) (h frame) s = Inr s1" and
    r: "if isFirst \<and> 956 \<le> getCurFrame t \<and> getCurFrame t \<le> 1038
        then glitchWorkaround frame (render fx frame (getCurFrame t) u s1) = Inr s'
        else s' = render fx frame (getCurFrame t) u s1"
    by blast
  have rc: "calls (render fx frame (getCurFrame t) u s1) =
              calls s @ [CopyRectToScreen 0 (pitch frame) 0 0 (w frame) (h frame),
                         Render frame (getCurFrame t) u]"
    and rp: "palette (render fx frame (getCurFrame t) u s1) = palette s"
    and rm: "musicVolume (render fx frame (getCurFrame t) u s1) = musicVolume s"
    using copyRectToScreen_Inr [OF c] by (simp_all add: render_def call_def)
  show ?thesis
  proof (cases "isFirst \<and> 956 \<le> getCurFrame t \<and> getCurFrame t \<le> 1038")
    case True
    with r have "glitchWorkaround frame (render fx frame (getCurFrame t) u s1) = Inr s'" by simp
    from glitchWorkaround_Inr [OF this] True rc rp rm show ?thesis by simp
  next
    case False
    with r have e: "s' = render fx frame (getCurFrame t) u s1" by simp
    show ?thesis unfolding e by (simp add: False rc rp rm)
  qed
qed


lemma in_set_take_nth: "n \<le> length xs \<Longrightarrow> (x \<in> set (take n xs)) = (\<exists>k<n. xs ! k = x)"
  by (auto simp: in_set_conv_nth)

lemma colorKey_spec_aux:
  assumes c: "length c = 256"
    and cs: "\<forall>j<256. c ! j = (\<exists>k. k < len \<and> unat (px ! k) = j)"
    and len: "len \<le> length px"
  shows "((findUnused c 1 = 0) = (\<forall>b::byte. b \<noteq> 0 \<longrightarrow> b \<in> set (take len px)))
     \<and> (findUnused c 1 \<noteq> 0 \<longrightarrow> findUnused c 1 \<notin> set (take len px)
          \<and> (\<forall>b::byte. b \<noteq> 0 \<and> b < findUnused c 1 \<longrightarrow> b \<in> set (take len px)))"
proof -
  let ?S = "set (take len px)"
  have mem: "c ! unat b = (b \<in> ?S)" for b :: byte
  proof -
    have "unat b < 256" by (rule unat_byte_lt)
    with cs have "c ! unat b = (\<exists>k. k < len \<and> unat (px ! k) = unat b)"
      by (rule_tac mp [OF spec [of _ "unat b"]])
    also have "\<dots> = (\<exists>k<len. px ! k = b)"
      by (simp only: word_unat_eq_iff [symmetric])
    also have "\<dots> = (b \<in> ?S)"
      using len by (simp only: in_set_take_nth)
    finally show ?thesis .
  qed
  have nz: "1 \<le> unat b" if "b \<noteq> 0" for b :: byte
    using that by (simp add: unat_gt_0 Suc_le_eq)
  let ?k = "findUnused c 1"
  have "(1::nat) \<le> 1" by simp
  from findUnused_spec [OF this, of c]
  show ?thesis
  proof (elim disjE conjE)
    assume k: "?k = 0" and a: "\<forall>i. 1 \<le> i \<and> i < 256 \<longrightarrow> c ! i"
    have "b \<in> ?S" if "b \<noteq> 0" for b :: byte
    proof -
      have "1 \<le> unat b \<and> unat b < 256" using nz [OF that] unat_byte_lt [of b] by simp
      with a have "c ! unat b" by (rule_tac mp [OF spec [of _ "unat b"]])
      then show ?thesis by (simp only: mem)
    qed
    then show ?thesis using k by simp
  next
    assume k1: "1 \<le> unat ?k" and nc: "\<not> c ! unat ?k"
      and a: "\<forall>i. 1 \<le> i \<and> i < unat ?k \<longrightarrow> c ! i"
    have k0: "?k \<noteq> 0"
    proof
      assume "?k = 0"
      then have "unat ?k = 0" by (simp only: unat_0)
      with k1 show False by simp
    qed
    have notin: "?k \<notin> ?S" using nc unfolding mem .
    have below: "b \<in> ?S" if "b \<noteq> 0" "b < ?k" for b :: byte
    proof -
      have "unat b < unat ?k" using that(2) by (simp only: word_less_nat_alt)
      with nz [OF that(1)] have "1 \<le> unat b \<and> unat b < unat ?k" by simp
      with a have "c ! unat b" by (rule_tac mp [OF spec [of _ "unat b"]])
      then show ?thesis by (simp only: mem)
    qed
    have "\<not> (\<forall>b::byte. b \<noteq> 0 \<longrightarrow> b \<in> ?S)" using k0 notin by blast
    with k0 notin below show ?thesis by blast
  qed
qed

lemma colorKey_spec:
  assumes "0 \<le> w frame" and "0 \<le> h frame"
    and "w frame * h frame \<le> int (length (pixels frame))"
    and "length (pixels frame) < 4294967296"
  shows "\<exists>k. colorKey frame = Inr k
     \<and> ((k = 0) = (\<forall>b::byte. b \<noteq> 0 \<longrightarrow> b \<in> set (take (nat (w frame * h frame)) (pixels frame))))
     \<and> (k \<noteq> 0 \<longrightarrow> k \<notin> set (take (nat (w frame * h frame)) (pixels frame))
           \<and> (\<forall>b::byte. b \<noteq> 0 \<and> b < k \<longrightarrow> b \<in> set (take (nat (w frame * h frame)) (pixels frame))))"
proof -
  let ?len = "nat (w frame * h frame)"
  have nn: "0 \<le> w frame * h frame" using assms(1,2) by simp
  have lt: "w frame * h frame < 4294967296" using assms(3,4) by linarith
  have m: "nat ((w frame * h frame) mod 4294967296) = ?len"
    using nn lt by (simp only: mod_pos_pos_trivial)
  have len: "?len \<le> length (pixels frame)" using assms(3) nn by simp
  have lr: "length (replicate 256 False) = 256" by (simp only: length_replicate)
  have r: "\<not> replicate 256 False ! j" if "j < 256" for j
    using that by (simp only: nth_replicate) simp
  from countPixels_ok [OF len lr, of 0]
  obtain c where c: "countPixels (pixels frame) ?len 0 (replicate 256 False) = Inr c"
    "length c = 256"
    "\<forall>j<256. c ! j = (replicate 256 False ! j \<or> (\<exists>k. 0 \<le> k \<and> k < ?len \<and> unat (pixels frame ! k) = j))"
    by blast
  have cs: "\<forall>j<256. c ! j = (\<exists>k. k < ?len \<and> unat (pixels frame ! k) = j)"
  proof (intro allI impI)
    fix j :: nat
    assume j: "j < 256"
    with c(3) have "c ! j = (replicate 256 False ! j \<or> (\<exists>k. 0 \<le> k \<and> k < ?len \<and> unat (pixels frame ! k) = j))"
      by (rule_tac mp [OF spec [of _ j]])
    with r [OF j] show "c ! j = (\<exists>k. k < ?len \<and> unat (pixels frame ! k) = j)"
      by simp
  qed
  have e: "colorKey frame = Inr (findUnused c 1)"
    unfolding colorKey_def Let_def m c(1) by (simp only: sum.case)
  note aux = colorKey_spec_aux [OF c(2) cs len]
  show ?thesis
  proof (rule exI [where x = "findUnused c 1"], intro conjI)
    show "colorKey frame = Inr (findUnused c 1)" by (rule e)
  next
    from aux show "(findUnused c 1 = 0) =
      (\<forall>b::byte. b \<noteq> 0 \<longrightarrow> b \<in> set (take ?len (pixels frame)))"
      by (rule conjunct1)
  next
    from aux show "findUnused c 1 \<noteq> 0 \<longrightarrow> findUnused c 1 \<notin> set (take ?len (pixels frame))
           \<and> (\<forall>b::byte. b \<noteq> 0 \<and> b < findUnused c 1 \<longrightarrow> b \<in> set (take ?len (pixels frame)))"
      by (rule conjunct2)
  qed
qed

text \<open>
  C1. For a decoded frame that is not low-res, whose \<open>w * h\<close> bytes lie in its pixel
  buffer, the search returns a key \<open>k\<close>. If \<open>k\<close> is not 0, it occurs nowhere in the
  frame's first \<open>w * h\<close> pixel bytes and every smaller index other than 0 does occur: it
  is the smallest index from 1 to 255 that the frame does not use. The key is 0 only
  when every index from 1 to 255 occurs, so index 0 is never picked for being absent.
  Whenever the frame is shown, \<open>unused\<close> is that key, and the calls made for the frame
  are the copy of the frame to the screen, then the subtitle renderer with the frame,
  the current frame number and the key, then the calls of the workaround if it applies.
\<close>

theorem playVideo_colorKey_search:
  assumes "decodeNextFrame t = Some frame" and "\<not> isLowRes (decoderState t)"
    and "0 \<le> w frame" and "0 \<le> h frame"
    and "w frame * h frame \<le> int (length (pixels frame))"
    and "length (pixels frame) < 4294967296"
  shows "\<exists>k. colorKey frame = Inr k
     \<and> ((k = 0) = (\<forall>b::byte. b \<noteq> 0 \<longrightarrow> b \<in> set (take (nat (w frame * h frame)) (pixels frame))))
     \<and> (k \<noteq> 0 \<longrightarrow> k \<notin> set (take (nat (w frame * h frame)) (pixels frame))
           \<and> (\<forall>b::byte. b \<noteq> 0 \<and> b < k \<longrightarrow> b \<in> set (take (nat (w frame * h frame)) (pixels frame))))
     \<and> (\<forall>s' u. showFrame fx isFirst t s = Inr (s', u) \<longrightarrow>
           u = k \<and> calls s' = calls s @
             [CopyRectToScreen 0 (pitch frame) 0 0 (w frame) (h frame),
              Render frame (getCurFrame t) k] @
             (if isFirst \<and> 956 \<le> getCurFrame t \<and> getCurFrame t \<le> 1038
              then glitchWorkaroundCalls frame else []))"
proof -
  from colorKey_spec [OF assms(3-6)] obtain k where
    k: "colorKey frame = Inr k"
    and k0: "(k = 0) = (\<forall>b::byte. b \<noteq> 0 \<longrightarrow> b \<in> set (take (nat (w frame * h frame)) (pixels frame)))"
    and k1: "k \<noteq> 0 \<longrightarrow> k \<notin> set (take (nat (w frame * h frame)) (pixels frame))
           \<and> (\<forall>b::byte. b \<noteq> 0 \<and> b < k \<longrightarrow> b \<in> set (take (nat (w frame * h frame)) (pixels frame)))"
    by blast
  have r: "\<forall>s' u. showFrame fx isFirst t s = Inr (s', u) \<longrightarrow>
           u = k \<and> calls s' = calls s @
             [CopyRectToScreen 0 (pitch frame) 0 0 (w frame) (h frame),
              Render frame (getCurFrame t) k] @
             (if isFirst \<and> 956 \<le> getCurFrame t \<and> getCurFrame t \<le> 1038
              then glitchWorkaroundCalls frame else [])"
  proof (intro allI impI)
    fix s' u
    assume sf: "showFrame fx isFirst t s = Inr (s', u)"
    from showFrame_normal [OF assms(1,2) sf] k have u: "u = k" by auto
    from showFrame_calls [OF assms(1,2) sf]
    show "u = k \<and> calls s' = calls s @
             [CopyRectToScreen 0 (pitch frame) 0 0 (w frame) (h frame),
              Render frame (getCurFrame t) k] @
             (if isFirst \<and> 956 \<le> getCurFrame t \<and> getCurFrame t \<le> 1038
              then glitchWorkaroundCalls frame else [])"
      unfolding u by (intro conjI refl) (erule conjunct1)
  qed
  show ?thesis
    by (rule exI [where x = k], intro conjI) (rule k, rule k0, rule k1, rule r)
qed

theorem playVideo_colorKey_search_witness:
  "colorKey sampleFrame = Inr 3
   \<and> (3::byte) \<notin> set (take (nat (w sampleFrame * h sampleFrame)) (pixels sampleFrame))
   \<and> showFrame noSubtitles False (sampleTick False) sampleHost =
       Inr (sampleHost\<lparr>screen := \<lparr>w = 2, h = 2, pitch = 2, pixels = [1, 2, 0, 1]\<rparr>,
                       calls := [CopyRectToScreen 0 2 0 0 2 2, Render sampleFrame 1000 3]\<rparr>, 3)"
proof -
  have ev: "showFrame noSubtitles False (sampleTick False) sampleHost =
       Inr (sampleHost\<lparr>screen := \<lparr>w = 2, h = 2, pitch = 2, pixels = [1, 2, 0, 1]\<rparr>,
                       calls := [CopyRectToScreen 0 2 0 0 2 2, Render sampleFrame 1000 3]\<rparr>, 3)"
    by code_simp
  have h1: "decodeNextFrame (sampleTick False) = Some sampleFrame"
    and h2: "\<not> isLowRes (decoderState (sampleTick False))"
    and h3: "0 \<le> w sampleFrame" and h4: "0 \<le> h sampleFrame"
    and h5: "w sampleFrame * h sampleFrame \<le> int (length (pixels sampleFrame))"
    and h6: "length (pixels sampleFrame) < 4294967296"
    by (simp_all add: sampleTick_def sampleFrame_def isLowRes_def)
  from playVideo_colorKey_search [OF h1 h2 h3 h4 h5 h6, of noSubtitles False sampleHost]
  obtain k where k: "colorKey sampleFrame = Inr k"
    and k1: "k \<noteq> 0 \<longrightarrow> k \<notin> set (take (nat (w sampleFrame * h sampleFrame)) (pixels sampleFrame))"
    and ku: "\<forall>s' u. showFrame noSubtitles False (sampleTick False) sampleHost = Inr (s', u)
               \<longrightarrow> u = k"
    by blast
  from ku ev have e: "k = 3" by blast
  have "(3::byte) \<noteq> 0" by simp
  with k k1 ev show ?thesis unfolding e by blast
qed

section \<open>play\<close>

text \<open>
  C8. If loading the video fails and bit 1 (value 2) of \<open>flags\<close> is set, \<open>play\<close>
  returns with \<open>_playing\<close> still true; the only calls it has made are the muting of
  the music, if bit 0 is set, and \<open>loadFile\<close>: the subtitles are not loaded, the
  decoder is not closed, and the music volume stays at 0 if bit 0 zeroed it. Every
  other call of \<open>play\<close> that returns leaves \<open>_playing\<close> false.
\<close>

theorem play_early_return:
  "(\<not> loadFile \<and> flags AND 2 \<noteq> 0 \<longrightarrow>
      (\<exists>s'. play fx video flags loadFile isMusicMuted ts (m, s) = Some (Inr (m\<lparr>playing := True\<rparr>, s'))
         \<and> calls s' = calls s @ (if flags AND 1 \<noteq> 0 then [SetMusicVolume 0] else []) @ [LoadFile video]
         \<and> musicVolume s' = (if flags AND 1 \<noteq> 0 then 0 else musicVolume s)
         \<and> screen s' = screen s \<and> palette s' = palette s))
   \<and> (\<forall>m' s'. \<not> (\<not> loadFile \<and> flags AND 2 \<noteq> 0)
         \<and> play fx video flags loadFile isMusicMuted ts (m, s) = Some (Inr (m', s'))
        \<longrightarrow> \<not> playing m')"
  by (auto simp: play_def Let_def call_def setMusicVolume_def split: option.splits sum.splits)

theorem play_early_return_witness:
  "play noSubtitles ''INTRO.SMK'' 3 False False []
      (\<lparr>playing = False, decoderPtr = 3, subtitlePtr = 6\<rparr>, sampleHost)
     = Some (Inr (\<lparr>playing = True, decoderPtr = 3, subtitlePtr = 6\<rparr>,
                  sampleHost\<lparr>musicVolume := 0,
                              calls := [SetMusicVolume 0, LoadFile ''INTRO.SMK'']\<rparr>))
   \<and> play noSubtitles ''INTRO.SMK'' 1 True False [lastTick]
      (\<lparr>playing = False, decoderPtr = 3, subtitlePtr = 6\<rparr>, sampleHost)
     = Some (Inr (\<lparr>playing = False, decoderPtr = 3, subtitlePtr = 6\<rparr>,
                  sampleHost\<lparr>musicVolume := 255,
                              calls := [SetMusicVolume 0, LoadFile ''INTRO.SMK'',
                                        SubtitleLoad ''INTRO.SMK'', Start, DirtyAllScreen,
                                        FlushPalette True, SetMusicVolume 255, Close]\<rparr>))
   \<and> \<not> playing \<lparr>playing = False, decoderPtr = 3, subtitlePtr = 6\<rparr>"
proof -
  let ?m = "\<lparr>playing = False, decoderPtr = 3, subtitlePtr = 6\<rparr>"
  have e1: "play noSubtitles ''INTRO.SMK'' 3 False False [] (?m, sampleHost)
     = Some (Inr (\<lparr>playing = True, decoderPtr = 3, subtitlePtr = 6\<rparr>,
                  sampleHost\<lparr>musicVolume := 0,
                              calls := [SetMusicVolume 0, LoadFile ''INTRO.SMK'']\<rparr>))"
    by code_simp
  have e2: "play noSubtitles ''INTRO.SMK'' 1 True False [lastTick] (?m, sampleHost)
     = Some (Inr (\<lparr>playing = False, decoderPtr = 3, subtitlePtr = 6\<rparr>,
                  sampleHost\<lparr>musicVolume := 255,
                              calls := [SetMusicVolume 0, LoadFile ''INTRO.SMK'',
                                        SubtitleLoad ''INTRO.SMK'', Start, DirtyAllScreen,
                                        FlushPalette True, SetMusicVolume 255, Close]\<rparr>))"
    by code_simp
  have h1: "\<not> False \<and> (3::int32) AND 2 \<noteq> 0" by simp
  have h2: "\<not> (\<not> True \<and> (1::int32) AND 2 \<noteq> 0)" by simp
  from play_early_return [of True 1 noSubtitles "''INTRO.SMK''" False "[lastTick]" ?m sampleHost] h2 e2
  have "\<not> playing \<lparr>playing = False, decoderPtr = 3, subtitlePtr = 6\<rparr>" by blast
  moreover from play_early_return [of False 3 noSubtitles "''INTRO.SMK''" False "[]" ?m sampleHost] h1
  have "\<exists>s'. play noSubtitles ''INTRO.SMK'' 3 False False [] (?m, sampleHost)
           = Some (Inr (?m\<lparr>playing := True\<rparr>, s'))" by blast
  ultimately show ?thesis using e1 e2 by blast
qed

section \<open>The palette after a frame\<close>

lemma showFrame_palette:
  assumes "showFrame fx isFirst t s = Inr (s1, u)"
  shows "palette s1 = palette s"
proof (cases "decodeNextFrame t")
  case None
  with assms show ?thesis by (simp add: showFrame_def)
next
  case (Some frame)
  show ?thesis
  proof (cases "isLowRes (decoderState t)")
    case True
    with assms Some show ?thesis
      by (auto simp: showFrame_def scale2x_def call_def split: sum.splits)
  next
    case False
    from showFrame_calls [OF Some False assms] show ?thesis by simp
  qed
qed

lemma showFrame_key_zero:
  assumes sf: "showFrame fx isFirst t s = Inr (s1, u)"
    and c: "decodeNextFrame t = None \<or> isLowRes (decoderState t)
       \<or> (\<exists>frame. decodeNextFrame t = Some frame \<and> 0 \<le> w frame \<and> 0 \<le> h frame
            \<and> w frame * h frame \<le> int (length (pixels frame))
            \<and> length (pixels frame) < 4294967296
            \<and> (\<forall>b::byte. b \<noteq> 0 \<longrightarrow> b \<in> set (take (nat (w frame * h frame)) (pixels frame))))"
  shows "u = 0"
proof (cases "decodeNextFrame t")
  case None
  with sf show ?thesis by (simp add: showFrame_def)
next
  case (Some frame)
  show ?thesis
  proof (cases "isLowRes (decoderState t)")
    case True
    with sf Some show ?thesis
      by (auto simp: showFrame_def split: sum.splits)
  next
    case False
    from c show ?thesis
    proof (elim disjE exE conjE)
      assume "decodeNextFrame t = None"
      with Some show ?thesis by simp
    next
      assume "isLowRes (decoderState t)"
      with False show ?thesis by (rule notE)
    next
      fix f'
      assume f': "decodeNextFrame t = Some f'"
        and wf': "0 \<le> w f'" "0 \<le> h f'"
          "w f' * h f' \<le> int (length (pixels f'))"
          "length (pixels f') < 4294967296"
        and all': "\<forall>b::byte. b \<noteq> 0 \<longrightarrow> b \<in> set (take (nat (w f' * h f')) (pixels f'))"
      from f' Some have ff: "f' = frame" by simp
      note wf = wf' [unfolded ff] and all = all' [unfolded ff]
      from showFrame_normal [OF Some False sf] have k: "colorKey frame = Inr u" by blast
      from colorKey_spec [OF wf] obtain k' where
        k': "colorKey frame = Inr k'"
        and z: "(k' = 0) = (\<forall>b::byte. b \<noteq> 0 \<longrightarrow> b \<in> set (take (nat (w frame * h frame)) (pixels frame)))"
        by blast
      from k k' have "u = k'" by simp
      with z all show ?thesis by blast
    qed
  qed
qed

lemma setPalette_full:
  assumes "length (palette s) = 768" and "768 \<le> length colors"
  shows "setPalette colors 0 256 s
           = Inr (call (SetPalette colors 0 256) (s\<lparr>palette := take 768 colors\<rparr>))"
  using assms by (simp add: setPalette_def memcpy_def)

lemma setPalette_one:
  assumes "length (palette s) = 768" and "k < 256"
  shows "setPalette subtitleColor k 1 s
           = Inr (call (SetPalette subtitleColor k 1)
                   (s\<lparr>palette := take (3 * k) (palette s) @ subtitleColor @ drop (3 * k + 3) (palette s)\<rparr>))"
proof -
  have n: "nat (3 * int k) = 3 * k" "nat (3 * int k + 3) = 3 * k + 3" by arith+
  show ?thesis
    using assms by (simp add: setPalette_def memcpy_def subtitleColor_def n)
qed

lemma fullFrame_all:
  "\<forall>b::byte. b \<noteq> 0 \<longrightarrow> b \<in> set (take (nat (w fullFrame * h fullFrame)) (pixels fullFrame))"
proof (intro allI impI)
  fix b :: byte
  assume nz: "b \<noteq> 0"
  have "0 < unat b" using nz by (simp add: unat_gt_0)
  then have "unat b \<in> set [1..<256]" using unat_byte_lt [of b] by simp
  then have "of_nat (unat b) \<in> (of_nat :: nat \<Rightarrow> byte) ` set [1..<256]" by (rule imageI)
  then have "b \<in> set (map of_nat [1..<256])" by simp
  then show "b \<in> set (take (nat (w fullFrame * h fullFrame)) (pixels fullFrame))"
    by (simp add: fullFrame_def)
qed

lemma fullFrame_wf:
  "0 \<le> w fullFrame" "0 \<le> h fullFrame"
  "w fullFrame * h fullFrame \<le> int (length (pixels fullFrame))"
  "length (pixels fullFrame) < 4294967296"
  by (simp_all add: fullFrame_def)

text \<open>
  C9. Take a pass of the loop whose frame block has run, with the host's palette of 256
  entries and the decoder's palette of at least that size. If the frame is low-res (or
  null), or every index from 1 to 255 occurs in its pixels, the colour key is 0. With
  the key 0, the pass installs the decoder's 256 entries, makes no other palette call,
  and the palette is the decoder's. The one-entry write of the subtitle colour (0xff,
  0xff, 0x00) is made exactly when the key is not 0, at the key's index.
\<close>

theorem updateFrame_palette:
  assumes "showFrame fx isFirst t s = Inr (s1, u)"
    and "length (palette s) = 768" and "768 \<le> length (getPalette t)"
  shows "((decodeNextFrame t = None \<or> isLowRes (decoderState t)
       \<or> (\<exists>frame. decodeNextFrame t = Some frame \<and> 0 \<le> w frame \<and> 0 \<le> h frame
            \<and> w frame * h frame \<le> int (length (pixels frame))
            \<and> length (pixels frame) < 4294967296
            \<and> (\<forall>b::byte. b \<noteq> 0 \<longrightarrow> b \<in> set (take (nat (w frame * h frame)) (pixels frame)))))
      \<longrightarrow> u = 0)
   \<and> (u = 0 \<longrightarrow> updateFrame fx isFirst t s =
         Inr (call UpdateScreen (call (SetPalette (getPalette t) 0 256)
                (s1\<lparr>palette := take 768 (getPalette t)\<rparr>))))
   \<and> (u \<noteq> 0 \<longrightarrow> updateFrame fx isFirst t s =
         Inr (call UpdateScreen (call (SetPalette subtitleColor (unat u) 1)
                ((call (SetPalette (getPalette t) 0 256) (s1\<lparr>palette := take 768 (getPalette t)\<rparr>))
                   \<lparr>palette := take (3 * unat u) (take 768 (getPalette t)) @ subtitleColor
                                @ drop (3 * unat u + 3) (take 768 (getPalette t))\<rparr>))))"
proof (intro conjI impI)
  assume "decodeNextFrame t = None \<or> isLowRes (decoderState t)
       \<or> (\<exists>frame. decodeNextFrame t = Some frame \<and> 0 \<le> w frame \<and> 0 \<le> h frame
            \<and> w frame * h frame \<le> int (length (pixels frame))
            \<and> length (pixels frame) < 4294967296
            \<and> (\<forall>b::byte. b \<noteq> 0 \<longrightarrow> b \<in> set (take (nat (w frame * h frame)) (pixels frame))))"
  then show "u = 0" by (rule showFrame_key_zero [OF assms(1)])
next
  have p1: "length (palette s1) = 768"
    using showFrame_palette [OF assms(1)] assms(2) by simp
  note full = setPalette_full [OF p1 assms(3)]
  {
    assume "u = 0"
    then show "updateFrame fx isFirst t s =
         Inr (call UpdateScreen (call (SetPalette (getPalette t) 0 256)
                (s1\<lparr>palette := take 768 (getPalette t)\<rparr>)))"
      by (simp add: updateFrame_def assms(1) full)
  }
  {
    assume nz: "u \<noteq> 0"
    let ?s2 = "call (SetPalette (getPalette t) 0 256) (s1\<lparr>palette := take 768 (getPalette t)\<rparr>)"
    have p2: "length (palette ?s2) = 768" using assms(3) by (simp add: call_def)
    have pal: "palette ?s2 = take 768 (getPalette t)" by (simp add: call_def)
    from setPalette_one [OF p2 unat_byte_lt [of u]] nz
    show "updateFrame fx isFirst t s =
         Inr (call UpdateScreen (call (SetPalette subtitleColor (unat u) 1)
                (?s2\<lparr>palette := take (3 * unat u) (take 768 (getPalette t)) @ subtitleColor
                                @ drop (3 * unat u + 3) (take 768 (getPalette t))\<rparr>)))"
      by (simp add: updateFrame_def assms(1) full pal)
  }
qed

theorem updateFrame_palette_witness:
  "updateFrame noSubtitles False (sampleTick True) sampleHost =
      Inr (sampleHost\<lparr>screen := \<lparr>w = 2, h = 2, pitch = 2, pixels = [1, 2, 1, 2]\<rparr>,
                      palette := replicate 768 7,
                      calls := [LockScreen, UnlockScreen, SetPalette (replicate 768 7) 0 256,
                                UpdateScreen]\<rparr>)
   \<and> colorKey fullFrame = Inr 0
   \<and> updateFrame noSubtitles False fullTick wideHost =
      Inr (wideHost\<lparr>screen := fullFrame,
                    palette := replicate 768 7,
                    calls := [CopyRectToScreen 0 255 0 0 255 1, Render fullFrame 1000 0,
                              SetPalette (replicate 768 7) 0 256, UpdateScreen]\<rparr>)"
proof -
  let ?low = "sampleHost\<lparr>screen := \<lparr>w = 2, h = 2, pitch = 2, pixels = [1, 2, 1, 2]\<rparr>,
                          calls := [LockScreen, UnlockScreen]\<rparr>"
  have sf1: "showFrame noSubtitles False (sampleTick True) sampleHost = Inr (?low, 0)"
    by code_simp
  have p1: "length (palette sampleHost) = 768" by (simp add: sampleHost_def)
  have g1: "768 \<le> length (getPalette (sampleTick True))" by (simp add: sampleTick_def)
  have l1: "isLowRes (decoderState (sampleTick True))" by (simp add: sampleTick_def isLowRes_def)
  from updateFrame_palette [OF sf1 p1 g1]
  have u1: "updateFrame noSubtitles False (sampleTick True) sampleHost =
         Inr (call UpdateScreen (call (SetPalette (getPalette (sampleTick True)) 0 256)
                (?low\<lparr>palette := take 768 (getPalette (sampleTick True))\<rparr>)))"
    by blast
  have r1: "updateFrame noSubtitles False (sampleTick True) sampleHost =
      Inr (sampleHost\<lparr>screen := \<lparr>w = 2, h = 2, pitch = 2, pixels = [1, 2, 1, 2]\<rparr>,
                      palette := replicate 768 7,
                      calls := [LockScreen, UnlockScreen, SetPalette (replicate 768 7) 0 256,
                                UpdateScreen]\<rparr>)"
    unfolding u1 by (simp add: sampleTick_def sampleHost_def call_def)
  from colorKey_spec [OF fullFrame_wf] fullFrame_all
  have ck: "colorKey fullFrame = Inr 0" by blast
  let ?s1 = "wideHost\<lparr>screen := fullFrame, calls := [CopyRectToScreen 0 255 0 0 255 1]\<rparr>"
  have cr: "copyRectToScreen (pixels fullFrame) 0 (pitch fullFrame) 0 0 (w fullFrame) (h fullFrame)
              wideHost = Inr ?s1"
    by code_simp
  let ?s2 = "wideHost\<lparr>screen := fullFrame,
               calls := [CopyRectToScreen 0 255 0 0 255 1, Render fullFrame 1000 0]\<rparr>"
  have sf2: "showFrame noSubtitles False fullTick wideHost = Inr (?s2, 0)"
    by (simp add: showFrame_def fullTick_def isLowRes_def cr ck render_def noSubtitles_def
        call_def)
  have p2: "length (palette wideHost) = 768" by (simp add: wideHost_def)
  have g2: "768 \<le> length (getPalette fullTick)" by (simp add: fullTick_def)
  from updateFrame_palette [OF sf2 p2 g2]
  have u2: "updateFrame noSubtitles False fullTick wideHost =
         Inr (call UpdateScreen (call (SetPalette (getPalette fullTick) 0 256)
                (?s2\<lparr>palette := take 768 (getPalette fullTick)\<rparr>)))"
    by blast
  have r2: "updateFrame noSubtitles False fullTick wideHost =
      Inr (wideHost\<lparr>screen := fullFrame,
                    palette := replicate 768 7,
                    calls := [CopyRectToScreen 0 255 0 0 255 1, Render fullFrame 1000 0,
                              SetPalette (replicate 768 7) 0 256, UpdateScreen]\<rparr>)"
    unfolding u2 by (simp add: fullTick_def wideHost_def call_def)
  from r1 ck r2 show ?thesis by (intro conjI)
qed

section \<open>Copying rows\<close>

lemma memcpy_length:
  assumes "memcpy dst d src so n = Inr r"
  shows "length r = length dst"
  using assms by (auto simp: memcpy_def split: if_splits)

lemma nth_append3:
  "(A @ B @ C) ! k =
     (if k < length A then A ! k
      else if k - length A < length B then B ! (k - length A)
      else C ! (k - length A - length B))"
  by (simp add: nth_append)

lemma memcpy_nth:
  assumes m: "memcpy dst d src so n = Inr r" and i: "0 \<le> i" "i < int (length dst)"
  shows "r ! nat i = (if d \<le> i \<and> i < d + n then src ! nat (so + (i - d)) else dst ! nat i)"
proof -
  from m have b: "0 \<le> n" "0 \<le> d" "d + n \<le> int (length dst)" "0 \<le> so" "so + n \<le> int (length src)"
    and r: "r = take (nat d) dst @ take (nat n) (drop (nat so) src) @ drop (nat (d + n)) dst"
    by (auto simp: memcpy_def split: if_splits)
  let ?A = "take (nat d) dst" and ?B = "take (nat n) (drop (nat so) src)"
    and ?C = "drop (nat (d + n)) dst"
  have l1: "length ?A = nat d" using b by simp
  have l2: "length ?B = nat n" using b by simp
  have n3: "r ! nat i =
     (if nat i < nat d then ?A ! nat i
      else if nat i - nat d < nat n then ?B ! (nat i - nat d)
      else ?C ! (nat i - nat d - nat n))"
    unfolding r nth_append3 l1 l2 ..
  consider (lo) "i < d" | (mid) "d \<le> i" "i < d + n" | (hi) "d + n \<le> i" by linarith
  then show ?thesis
  proof cases
    case lo
    then have a: "nat i < nat d" using i by simp
    have "r ! nat i = ?A ! nat i" unfolding n3 by (simp only: a if_True)
    then have "r ! nat i = dst ! nat i" using a by simp
    with lo show ?thesis by simp
  next
    case mid
    then have a: "\<not> nat i < nat d" "nat i - nat d < nat n" using i b by simp_all
    have e: "nat so + (nat i - nat d) = nat (so + (i - d))" using mid b i by simp
    have k: "nat so + (nat i - nat d) \<le> length src" using mid b i by simp
    have "r ! nat i = ?B ! (nat i - nat d)" unfolding n3 by (simp only: a if_False if_True)
    also have "\<dots> = src ! (nat so + (nat i - nat d))" using a k by simp
    finally show ?thesis using mid e by simp
  next
    case hi
    then have a: "\<not> nat i < nat d" "\<not> nat i - nat d < nat n" using i b by simp_all
    have e: "nat (d + n) + (nat i - nat d - nat n) = nat i" using hi b i by simp
    have k: "nat (d + n) \<le> length dst" using b by simp
    have "r ! nat i = ?C ! (nat i - nat d - nat n)" unfolding n3 by (simp only: a if_False)
    also have "\<dots> = dst ! (nat (d + n) + (nat i - nat d - nat n))" using k by simp
    also have "\<dots> = dst ! nat i" unfolding e ..
    finally show ?thesis using hi b by simp
  qed
qed

lemma memcpy_ok:
  assumes "0 \<le> n" "0 \<le> d" "d + n \<le> int (length dst)" "0 \<le> so" "so + n \<le> int (length src)"
  shows "\<exists>r. memcpy dst d src so n = Inr r"
  using assms by (simp add: memcpy_def)

lemma row_step:
  fixes r R ps :: int
  assumes "0 \<le> ps" and "r < R"
  shows "r * ps + ps \<le> R * ps"
proof -
  from assms(2) have "r + 1 \<le> R" by simp
  then have "(r + 1) * ps \<le> R * ps" using assms(1) by (rule mult_right_mono)
  then show ?thesis by (simp add: algebra_simps)
qed

lemma scaleRows_spec:
  assumes "0 \<le> y" and "0 \<le> pitch frame" and "pitch frame \<le> pitch surf"
    and "(h frame sdiv 2) * pitch frame \<le> int (length (pixels frame))"
    and "2 * (h frame sdiv 2) * pitch surf \<le> int (length (pixels surf))"
  shows "\<exists>px. scaleRows frame y surf = Inr (surf\<lparr>pixels := px\<rparr>)
     \<and> length px = length (pixels surf)
     \<and> (\<forall>r x. 2 * y \<le> r \<and> r < 2 * (h frame sdiv 2) \<and> 0 \<le> x \<and> x < pitch frame \<longrightarrow>
           px ! nat (r * pitch surf + x) = pixels frame ! nat ((r div 2) * pitch frame + x))
     \<and> (\<forall>i. 0 \<le> i \<and> i < int (length (pixels surf))
           \<and> (\<forall>r x. 2 * y \<le> r \<and> r < 2 * (h frame sdiv 2) \<and> 0 \<le> x \<and> x < pitch frame
                  \<longrightarrow> i \<noteq> r * pitch surf + x)
          \<longrightarrow> px ! nat i = pixels surf ! nat i)"
  using assms
proof (induction frame y surf rule: scaleRows.induct)
  case (1 frame y surf)
  let ?H = "h frame sdiv 2" and ?pf = "pitch frame" and ?ps = "pitch surf"
  note pf0 = "1.prems"(2) and le = "1.prems"(3) and fb = "1.prems"(4) and sb = "1.prems"(5)
    and y0 = "1.prems"(1)
  have ps0: "0 \<le> ?ps" using pf0 le by simp
  show ?case
  proof (cases "y < ?H")
    case False
    then have e: "scaleRows frame y surf = Inr surf"
      by (simp add: scaleRows.simps [of frame y surf])
    have none: "\<not> (2 * y \<le> r \<and> r < 2 * ?H)" for r using False by simp
    show ?thesis
    proof (rule exI [where x = "pixels surf"], intro conjI allI impI)
      show "scaleRows frame y surf = Inr (surf\<lparr>pixels := pixels surf\<rparr>)" using e by simp
    next
      show "length (pixels surf) = length (pixels surf)" ..
    next
      fix r x
      assume "2 * y \<le> r \<and> r < 2 * ?H \<and> 0 \<le> x \<and> x < ?pf"
      with none [of r] show "pixels surf ! nat (r * ?ps + x) = pixels frame ! nat (r div 2 * ?pf + x)"
        by simp
    next
      fix i
      show "pixels surf ! nat i = pixels surf ! nat i" ..
    qed
  next
    case True
    \<comment> \<open>the rows this pass reads and writes are inside the buffers\<close>
    have yH: "y + 1 \<le> ?H" using True by simp
    have a0: "0 \<le> y * ?pf" using y0 pf0 by simp
    have "y * ?pf + ?pf \<le> ?H * ?pf" using pf0 True by (rule row_step)
    then have src_ok: "y * ?pf + ?pf \<le> int (length (pixels frame))" using fb by simp
    have two: "2 * y + 1 < 2 * ?H" using True by simp
    have "(2 * y + 1) * ?ps + ?ps \<le> (2 * ?H) * ?ps" using ps0 two by (rule row_step)
    then have d2: "(2 * y + 1) * ?ps + ?ps \<le> int (length (pixels surf))" using sb by simp
    have r0: "(2 * y + 1) * ?ps = (2 * y) * ?ps + ?ps" by (simp add: algebra_simps)
    have b0: "0 \<le> (2 * y) * ?ps" using y0 ps0 by simp
    let ?d1 = "getBasePtr surf 0 (y * 2 + 0)" and ?d2 = "getBasePtr surf 0 (y * 2 + 1)"
      and ?so = "getBasePtr frame 0 y"
    have d1e: "?d1 = (2 * y) * ?ps" and d2e: "?d2 = (2 * y) * ?ps + ?ps" and soe: "?so = y * ?pf"
      by (simp_all add: getBasePtr_def algebra_simps)
    obtain p1 where p1: "memcpy (pixels surf) ?d1 (pixels frame) ?so ?pf = Inr p1"
      using memcpy_ok [of ?pf ?d1 "pixels surf" ?so "pixels frame"]
        pf0 b0 d2 r0 le a0 src_ok unfolding d1e d2e soe by auto
    have lp1: "length p1 = length (pixels surf)" using p1 by (rule memcpy_length)
    obtain p2 where p2: "memcpy p1 ?d2 (pixels frame) ?so ?pf = Inr p2"
      using memcpy_ok [of ?pf ?d2 p1 ?so "pixels frame"]
        pf0 b0 d2 r0 le a0 src_ok ps0 unfolding d1e d2e soe lp1 by auto
    have lp2: "length p2 = length (pixels surf)" using p2 lp1 memcpy_length by metis
    let ?surf1 = "surf\<lparr>pixels := p2\<rparr>"
    have e: "scaleRows frame y surf = scaleRows frame (y + 1) ?surf1"
      using True p1 p2 by (simp add: scaleRows.simps [of frame y surf])
    have ih_prems: "0 \<le> y + 1" "0 \<le> pitch frame" "pitch frame \<le> pitch ?surf1"
      "(h frame sdiv 2) * pitch frame \<le> int (length (pixels frame))"
      "2 * (h frame sdiv 2) * pitch ?surf1 \<le> int (length (pixels ?surf1))"
      using y0 pf0 le fb sb lp2 by simp_all
    from "1.IH" [OF True p1 p2 ih_prems]
    obtain px where px: "scaleRows frame (y + 1) ?surf1 = Inr (?surf1\<lparr>pixels := px\<rparr>)"
      and lpx: "length px = length (pixels ?surf1)"
      and rows: "\<forall>r x. 2 * (y + 1) \<le> r \<and> r < 2 * ?H \<and> 0 \<le> x \<and> x < ?pf \<longrightarrow>
           px ! nat (r * pitch ?surf1 + x) = pixels frame ! nat ((r div 2) * ?pf + x)"
      and rest: "\<forall>i. 0 \<le> i \<and> i < int (length (pixels ?surf1))
           \<and> (\<forall>r x. 2 * (y + 1) \<le> r \<and> r < 2 * ?H \<and> 0 \<le> x \<and> x < ?pf
                  \<longrightarrow> i \<noteq> r * pitch ?surf1 + x)
          \<longrightarrow> px ! nat i = pixels ?surf1 ! nat i"
      by blast
    \<comment> \<open>what the two copies of this pass leave in the screen buffer\<close>
    have p2nth: "p2 ! nat i =
        (if (2 * y) * ?ps + ?ps \<le> i \<and> i < (2 * y) * ?ps + ?ps + ?pf
         then pixels frame ! nat (y * ?pf + (i - ((2 * y) * ?ps + ?ps)))
         else if (2 * y) * ?ps \<le> i \<and> i < (2 * y) * ?ps + ?pf
         then pixels frame ! nat (y * ?pf + (i - (2 * y) * ?ps))
         else pixels surf ! nat i)"
      if "0 \<le> i" "i < int (length (pixels surf))" for i
      using memcpy_nth [OF p2, of i] memcpy_nth [OF p1, of i] that
      unfolding d1e d2e soe lp1 by simp
    \<comment> \<open>a byte of a row before row 2y + 2 is in no later row\<close>
    have later: "i \<noteq> r * ?ps + x"
      if "i < (2 * y) * ?ps + ?ps + ?ps" "2 * (y + 1) \<le> r" "0 \<le> x" for i r x
    proof -
      have "2 * y + 1 < r" using that(2) by simp
      with ps0 have "(2 * y + 1) * ?ps + ?ps \<le> r * ?ps" by (rule row_step)
      with that(1,3) r0 show ?thesis by simp
    qed
    have keep: "px ! nat i = p2 ! nat i"
      if "0 \<le> i" "i < (2 * y) * ?ps + ?ps + ?ps" for i
    proof -
      have "i < int (length (pixels ?surf1))" using that(2) d2 r0 lp2 by simp
      moreover have "\<forall>r x. 2 * (y + 1) \<le> r \<and> r < 2 * ?H \<and> 0 \<le> x \<and> x < ?pf
                  \<longrightarrow> i \<noteq> r * pitch ?surf1 + x"
        using later [OF that(2)] by simp
      ultimately show ?thesis using rest that(1) by simp
    qed
    show ?thesis
    proof (rule exI [where x = px], intro conjI allI impI)
      show "scaleRows frame y surf = Inr (surf\<lparr>pixels := px\<rparr>)" using e px by simp
    next
      show "length px = length (pixels surf)" using lpx lp2 by simp
    next
      fix r x
      assume a: "2 * y \<le> r \<and> r < 2 * ?H \<and> 0 \<le> x \<and> x < ?pf"
      from a have "r = 2 * y \<or> r = 2 * y + 1 \<or> 2 * (y + 1) \<le> r" by arith
      then consider (even) "r = 2 * y" | (odd) "r = 2 * y + 1" | (later) "2 * (y + 1) \<le> r"
        by blast
      then show "px ! nat (r * ?ps + x) = pixels frame ! nat (r div 2 * ?pf + x)"
      proof cases
        case even
        have i0: "0 \<le> (2 * y) * ?ps + x" using b0 a by simp
        have i1: "(2 * y) * ?ps + x < (2 * y) * ?ps + ?ps + ?ps" using a le ps0 by simp
        have i2: "(2 * y) * ?ps + x < int (length (pixels surf))" using i1 d2 r0 by simp
        have "px ! nat ((2 * y) * ?ps + x) = p2 ! nat ((2 * y) * ?ps + x)" using keep [OF i0 i1] .
        also have "\<dots> = pixels frame ! nat (y * ?pf + x)"
          using p2nth [OF i0 i2] a le by simp
        finally show ?thesis unfolding even by simp
      next
        case odd
        have i0: "0 \<le> (2 * y) * ?ps + ?ps + x" using b0 a ps0 by simp
        have i1: "(2 * y) * ?ps + ?ps + x < (2 * y) * ?ps + ?ps + ?ps" using a le by simp
        have i2: "(2 * y) * ?ps + ?ps + x < int (length (pixels surf))" using i1 d2 r0 by simp
        have "px ! nat ((2 * y) * ?ps + ?ps + x) = p2 ! nat ((2 * y) * ?ps + ?ps + x)"
          using keep [OF i0 i1] .
        also have "\<dots> = pixels frame ! nat (y * ?pf + x)"
          using p2nth [OF i0 i2] a by simp
        finally show ?thesis unfolding odd r0 by simp
      next
        case later
        with rows a show ?thesis by simp
      qed
    next
      fix i
      assume a: "0 \<le> i \<and> i < int (length (pixels surf))
           \<and> (\<forall>r x. 2 * y \<le> r \<and> r < 2 * ?H \<and> 0 \<le> x \<and> x < ?pf \<longrightarrow> i \<noteq> r * ?ps + x)"
      then have i0: "0 \<le> i" and i2: "i < int (length (pixels surf))"
        and out: "\<And>r x. 2 * y \<le> r \<Longrightarrow> r < 2 * ?H \<Longrightarrow> 0 \<le> x \<Longrightarrow> x < ?pf \<Longrightarrow> i \<noteq> r * ?ps + x"
        by simp_all
      have n0: "\<not> ((2 * y) * ?ps \<le> i \<and> i < (2 * y) * ?ps + ?pf)"
      proof
        assume c: "(2 * y) * ?ps \<le> i \<and> i < (2 * y) * ?ps + ?pf"
        have "i \<noteq> (2 * y) * ?ps + (i - (2 * y) * ?ps)"
          using c two by (intro out) simp_all
        then show False by simp
      qed
      have n1: "\<not> ((2 * y) * ?ps + ?ps \<le> i \<and> i < (2 * y) * ?ps + ?ps + ?pf)"
      proof
        assume c: "(2 * y) * ?ps + ?ps \<le> i \<and> i < (2 * y) * ?ps + ?ps + ?pf"
        have "i \<noteq> (2 * y + 1) * ?ps + (i - ((2 * y) * ?ps + ?ps))"
          using c two by (intro out) simp_all
        then show False unfolding r0 by simp
      qed
      have "px ! nat i = p2 ! nat i"
      proof -
        have "\<forall>r x. 2 * (y + 1) \<le> r \<and> r < 2 * ?H \<and> 0 \<le> x \<and> x < ?pf
                  \<longrightarrow> i \<noteq> r * pitch ?surf1 + x"
          using out by simp
        with rest i0 i2 lp2 show ?thesis by simp
      qed
      also have "\<dots> = pixels surf ! nat i" using p2nth [OF i0 i2] n0 n1 by simp
      finally show "px ! nat i = pixels surf ! nat i" .
    qed
  qed
qed

text \<open>
  C2, as stated, fails where the rows of the frame are longer than the rows of the
  screen. The frame has two rows, so \<open>h / 2 = 1\<close> and only screen rows 0 and 1 should
  be written; every access is inside its buffer, and the second copy of frame row 0
  runs over the end of screen row 1 into screen row 2, whose first byte, at offset 4,
  changes from 9 to 3.
\<close>

theorem playVideo_lowRes_spill_counterexample:
  "showFrame noSubtitles False spillTick spillHost =
     Inr (spillHost\<lparr>screen := \<lparr>w = 2, h = 3, pitch = 2, pixels = [1, 2, 1, 2, 3, 9]\<rparr>,
                     calls := [LockScreen, UnlockScreen]\<rparr>, 0)
   \<and> h spillFrame sdiv 2 = 1
   \<and> getBasePtr (screen spillHost) 0 2 = 4
   \<and> pixels (screen spillHost) ! 4 = 9"
  by code_simp

text \<open>
  C2, amended. Take a decoded frame of a decoder that reports low-res, with a screen
  whose rows are at least as long as the frame's and whose buffer holds the rows
  written, and a frame buffer that holds the rows read. Then the frame block returns,
  having locked and unlocked the screen and made no other call, and for every row \<open>y\<close>
  with \<open>0 \<le> y < h / 2\<close> (the quotient truncated) the \<open>pitch\<close> bytes of frame row \<open>y\<close>
  are in screen row \<open>2y\<close> and in screen row \<open>2y + 1\<close>; every byte of the screen
  outside the first \<open>pitch\<close> bytes of the rows below \<open>2 (h / 2)\<close> is as it was. The
  colour key is 0.
\<close>

theorem playVideo_lowRes_scale2x:
  assumes "decodeNextFrame t = Some frame" and "isLowRes (decoderState t)"
    and "0 \<le> pitch frame" and "pitch frame \<le> pitch (screen s)"
    and "(h frame sdiv 2) * pitch frame \<le> int (length (pixels frame))"
    and "2 * (h frame sdiv 2) * pitch (screen s) \<le> int (length (pixels (screen s)))"
  shows "\<exists>px. showFrame fx isFirst t s =
            Inr (call UnlockScreen ((call LockScreen s)\<lparr>screen := (screen s)\<lparr>pixels := px\<rparr>\<rparr>), 0)
     \<and> length px = length (pixels (screen s))
     \<and> (\<forall>y x. 0 \<le> y \<and> y < h frame sdiv 2 \<and> 0 \<le> x \<and> x < pitch frame \<longrightarrow>
           px ! nat (getBasePtr (screen s) x (2 * y)) = pixels frame ! nat (getBasePtr frame x y)
         \<and> px ! nat (getBasePtr (screen s) x (2 * y + 1)) = pixels frame ! nat (getBasePtr frame x y))
     \<and> (\<forall>i. 0 \<le> i \<and> i < int (length (pixels (screen s)))
           \<and> (\<forall>r x. 0 \<le> r \<and> r < 2 * (h frame sdiv 2) \<and> 0 \<le> x \<and> x < pitch frame
                  \<longrightarrow> i \<noteq> getBasePtr (screen s) x r)
          \<longrightarrow> px ! nat i = pixels (screen s) ! nat i)"
proof -
  let ?H = "h frame sdiv 2" and ?pf = "pitch frame" and ?ps = "pitch (screen s)"
  have z: "(0::int) \<le> 0" by simp
  from scaleRows_spec [OF z assms(3-6)]
  obtain px where sr: "scaleRows frame 0 (screen s) = Inr ((screen s)\<lparr>pixels := px\<rparr>)"
    and lpx: "length px = length (pixels (screen s))"
    and rows: "\<forall>r x. 2 * 0 \<le> r \<and> r < 2 * ?H \<and> 0 \<le> x \<and> x < ?pf \<longrightarrow>
           px ! nat (r * ?ps + x) = pixels frame ! nat ((r div 2) * ?pf + x)"
    and rest: "\<forall>i. 0 \<le> i \<and> i < int (length (pixels (screen s)))
           \<and> (\<forall>r x. 2 * 0 \<le> r \<and> r < 2 * ?H \<and> 0 \<le> x \<and> x < ?pf \<longrightarrow> i \<noteq> r * ?ps + x)
          \<longrightarrow> px ! nat i = pixels (screen s) ! nat i"
    by blast
  have sf: "showFrame fx isFirst t s =
            Inr (call UnlockScreen ((call LockScreen s)\<lparr>screen := (screen s)\<lparr>pixels := px\<rparr>\<rparr>), 0)"
    using assms(1,2) sr by (simp add: showFrame_def scale2x_def call_def)
  have both: "px ! nat (getBasePtr (screen s) x (2 * y)) = pixels frame ! nat (getBasePtr frame x y)
         \<and> px ! nat (getBasePtr (screen s) x (2 * y + 1)) = pixels frame ! nat (getBasePtr frame x y)"
    if a: "0 \<le> y \<and> y < ?H \<and> 0 \<le> x \<and> x < ?pf" for y x
  proof -
    have e: "2 * 0 \<le> 2 * y \<and> 2 * y < 2 * ?H \<and> 0 \<le> x \<and> x < ?pf" using a by simp
    have o: "2 * 0 \<le> 2 * y + 1 \<and> 2 * y + 1 < 2 * ?H \<and> 0 \<le> x \<and> x < ?pf" using a by simp
    have d: "(2 * y) div 2 = y" "(2 * y + 1) div 2 = y" by simp_all
    from rows e have "px ! nat ((2 * y) * ?ps + x) = pixels frame ! nat (((2 * y) div 2) * ?pf + x)"
      by blast
    moreover from rows o
    have "px ! nat ((2 * y + 1) * ?ps + x) = pixels frame ! nat (((2 * y + 1) div 2) * ?pf + x)"
      by blast
    ultimately show ?thesis unfolding d getBasePtr_def by simp
  qed
  have other: "px ! nat i = pixels (screen s) ! nat i"
    if a: "0 \<le> i \<and> i < int (length (pixels (screen s)))
           \<and> (\<forall>r x. 0 \<le> r \<and> r < 2 * ?H \<and> 0 \<le> x \<and> x < ?pf \<longrightarrow> i \<noteq> getBasePtr (screen s) x r)"
    for i
  proof -
    from a have "\<forall>r x. 2 * 0 \<le> r \<and> r < 2 * ?H \<and> 0 \<le> x \<and> x < ?pf \<longrightarrow> i \<noteq> r * ?ps + x"
      by (simp add: getBasePtr_def)
    with rest a show ?thesis by blast
  qed
  show ?thesis
    using sf lpx both other by (intro exI [where x = px] conjI allI impI) blast+
qed

theorem playVideo_lowRes_scale2x_witness:
  "showFrame noSubtitles False lowTick tallHost =
     Inr (tallHost\<lparr>screen := \<lparr>w = 3, h = 5, pitch = 3,
                               pixels = [1, 2, 0, 1, 2, 0, 3, 4, 0, 3, 4, 0, 0, 0, 0]\<rparr>,
                    calls := [LockScreen, UnlockScreen]\<rparr>, 0)
   \<and> [1, 2, 0, 1, 2, 0, 3, 4, 0, 3, 4, 0, 0, 0, 0 :: byte] ! nat (getBasePtr (screen tallHost) 1 (2 * 1 + 1))
       = pixels lowFrame ! nat (getBasePtr lowFrame 1 1)"
proof -
  have ev: "showFrame noSubtitles False lowTick tallHost =
     Inr (tallHost\<lparr>screen := \<lparr>w = 3, h = 5, pitch = 3,
                               pixels = [1, 2, 0, 1, 2, 0, 3, 4, 0, 3, 4, 0, 0, 0, 0]\<rparr>,
                    calls := [LockScreen, UnlockScreen]\<rparr>, 0)"
    by code_simp
  have h1: "decodeNextFrame lowTick = Some lowFrame"
    and h2: "isLowRes (decoderState lowTick)"
    and h3: "0 \<le> pitch lowFrame"
    and h4: "pitch lowFrame \<le> pitch (screen tallHost)"
    and h5: "(h lowFrame sdiv 2) * pitch lowFrame \<le> int (length (pixels lowFrame))"
    and h6: "2 * (h lowFrame sdiv 2) * pitch (screen tallHost) \<le> int (length (pixels (screen tallHost)))"
    by (simp_all add: lowTick_def lowFrame_def tallHost_def isLowRes_def signed_divide_int_def)
  from playVideo_lowRes_scale2x [OF h1 h2 h3 h4 h5 h6, of noSubtitles False]
  obtain px where sf: "showFrame noSubtitles False lowTick tallHost =
            Inr (call UnlockScreen ((call LockScreen tallHost)
                   \<lparr>screen := (screen tallHost)\<lparr>pixels := px\<rparr>\<rparr>), 0)"
    and rows: "\<forall>y x. 0 \<le> y \<and> y < h lowFrame sdiv 2 \<and> 0 \<le> x \<and> x < pitch lowFrame \<longrightarrow>
           px ! nat (getBasePtr (screen tallHost) x (2 * y)) = pixels lowFrame ! nat (getBasePtr lowFrame x y)
         \<and> px ! nat (getBasePtr (screen tallHost) x (2 * y + 1)) = pixels lowFrame ! nat (getBasePtr lowFrame x y)"
    by blast
  have px: "px = [1, 2, 0, 1, 2, 0, 3, 4, 0, 3, 4, 0, 0, 0, 0]"
    using sf ev by (simp add: call_def tallHost_def)
  have "(0::int) \<le> 1 \<and> 1 < h lowFrame sdiv 2 \<and> (0::int) \<le> 1 \<and> 1 < pitch lowFrame"
    by (simp add: lowFrame_def signed_divide_int_def)
  with rows have "px ! nat (getBasePtr (screen tallHost) 1 (2 * 1 + 1))
       = pixels lowFrame ! nat (getBasePtr lowFrame 1 1)" by blast
  with ev show ?thesis unfolding px by (intro conjI)
qed

section \<open>The workaround for the first intro video\<close>

lemma copyRows_ok:
  assumes "0 \<le> cw" and "0 \<le> x" and "x + cw \<le> pitch scr" and "0 \<le> y"
    and "(y + int n) * pitch scr \<le> int (length (pixels scr))"
    and "0 \<le> off" and "cw \<le> pch" and "off + int n * pch \<le> int (length buf)"
  shows "\<exists>px. copyRows buf off pch x y cw n scr = Inr (scr\<lparr>pixels := px\<rparr>)
           \<and> length px = length (pixels scr)"
  using assms
proof (induction n arbitrary: off y scr)
  case 0
  have "copyRows buf off pch x y cw 0 scr = Inr (scr\<lparr>pixels := pixels scr\<rparr>)" by simp
  then show ?case by blast
next
  case (Suc n)
  let ?ps = "pitch scr"
  have ps0: "0 \<le> ?ps" using Suc.prems(1,2,3) by simp
  have pch0: "0 \<le> pch" using Suc.prems(1,7) by simp
  have y0: "0 \<le> y * ?ps" using Suc.prems(4) ps0 by simp
  have "y < y + int (Suc n)" by simp
  with ps0 have "y * ?ps + ?ps \<le> (y + int (Suc n)) * ?ps" by (rule row_step)
  then have dst: "y * ?ps + ?ps \<le> int (length (pixels scr))" using Suc.prems(5) by simp
  have n0: "0 \<le> int n * pch" using pch0 by simp
  have e1: "int (Suc n) * pch = pch + int n * pch" by (simp add: algebra_simps)
  have src: "off + pch + int n * pch \<le> int (length buf)" using Suc.prems(8) e1 by simp
  obtain p where p: "memcpy (pixels scr) (getBasePtr scr x y) buf off cw = Inr p"
    using memcpy_ok [of cw "getBasePtr scr x y" "pixels scr" off buf]
      Suc.prems(1,2,3,6,7) y0 dst src n0 by (auto simp: getBasePtr_def)
  have lp: "length p = length (pixels scr)" using p by (rule memcpy_length)
  let ?scr1 = "scr\<lparr>pixels := p\<rparr>"
  have e2: "(y + 1 + int n) * pitch ?scr1 = (y + int (Suc n)) * ?ps" by simp
  have prems: "0 \<le> cw" "0 \<le> x" "x + cw \<le> pitch ?scr1" "0 \<le> y + 1"
    "(y + 1 + int n) * pitch ?scr1 \<le> int (length (pixels ?scr1))"
    "0 \<le> off + pch" "cw \<le> pch" "off + pch + int n * pch \<le> int (length buf)"
    using Suc.prems pch0 src lp unfolding e2 by simp_all
  from Suc.IH [OF prems] obtain px where
    px: "copyRows buf (off + pch) pch x (y + 1) cw n ?scr1 = Inr (?scr1\<lparr>pixels := px\<rparr>)"
    and lpx: "length px = length (pixels ?scr1)" by blast
  have "copyRows buf off pch x y cw (Suc n) scr = Inr (scr\<lparr>pixels := px\<rparr>)"
    using p px by simp
  moreover have "length px = length (pixels scr)" using lpx lp by simp
  ultimately show ?case by blast
qed

lemma copyRectToScreen_row:
  assumes "memcpy (pixels (screen s)) (getBasePtr (screen s) x y) buf off cw = Inr px"
    and "0 \<le> x" and "0 \<le> y" and "0 \<le> cw"
    and "x + cw \<le> w (screen s)" and "y + 1 \<le> h (screen s)"
  shows "copyRectToScreen buf off pch x y cw 1 s =
           Inr (call (CopyRectToScreen off pch x y cw 1) (s\<lparr>screen := (screen s)\<lparr>pixels := px\<rparr>\<rparr>))"
  using assms by (simp add: copyRectToScreen_def)


lemma glitchWorkaround_spec:
  assumes g1: "188 \<le> w frame" and g2: "w frame \<le> pitch frame"
    and g3: "129 * pitch frame \<le> int (length (pixels frame))"
    and g4: "w frame \<le> w (screen s)" and g5: "128 \<le> h (screen s)"
    and g6: "w (screen s) \<le> pitch (screen s)"
    and g7: "128 * pitch (screen s) \<le> int (length (pixels (screen s)))"
  shows "\<exists>px. glitchWorkaround frame s =
            Inr (s\<lparr>screen := (screen s)\<lparr>pixels := px\<rparr>,
                   calls := calls s @ glitchWorkaroundCalls frame\<rparr>)
     \<and> length px = length (pixels (screen s))
     \<and> (\<forall>x. w frame - 188 \<le> x \<and> x < w frame \<longrightarrow>
           px ! nat (getBasePtr (screen s) x 124) = pixels frame ! nat (getBasePtr frame x 123)
         \<and> px ! nat (getBasePtr (screen s) x 125) = pixels frame ! nat (getBasePtr frame x 126))
     \<and> (\<forall>x. 0 \<le> x \<and> x < 64 \<longrightarrow>
           px ! nat (getBasePtr (screen s) x 126) = pixels frame ! nat (getBasePtr frame x 125)
         \<and> px ! nat (getBasePtr (screen s) x 127) = pixels frame ! nat (getBasePtr frame x 128))
     \<and> (\<forall>i. 0 \<le> i \<and> i < int (length (pixels (screen s)))
           \<and> (\<forall>x. w frame - 188 \<le> x \<and> x < w frame \<longrightarrow>
                  i \<noteq> getBasePtr (screen s) x 124 \<and> i \<noteq> getBasePtr (screen s) x 125)
           \<and> (\<forall>x. 0 \<le> x \<and> x < 64 \<longrightarrow>
                  i \<noteq> getBasePtr (screen s) x 126 \<and> i \<noteq> getBasePtr (screen s) x 127)
          \<longrightarrow> px ! nat i = pixels (screen s) ! nat i)"
proof -
  let ?W = "w frame" and ?pf = "pitch frame" and ?ps = "pitch (screen s)"
  let ?scr = "screen s" and ?fp = "pixels frame"
  let ?L = "int (length (pixels (screen s)))"
  note g = g1 g2 g3 g4 g5 g6 g7
  obtain p1 where p1: "memcpy (pixels ?scr) (124 * ?ps + (?W - 188)) ?fp (123 * ?pf + (?W - 188)) 188 = Inr p1"
    using memcpy_ok [of 188 "124 * ?ps + (?W - 188)" "pixels ?scr" "123 * ?pf + (?W - 188)" ?fp] g
    by auto
  have l1: "length p1 = length (pixels ?scr)" using p1 by (rule memcpy_length)
  obtain p2 where p2: "memcpy p1 (125 * ?ps + (?W - 188)) ?fp (126 * ?pf + (?W - 188)) 188 = Inr p2"
    using memcpy_ok [of 188 "125 * ?ps + (?W - 188)" p1 "126 * ?pf + (?W - 188)" ?fp] g l1
    by auto
  have l2: "length p2 = length (pixels ?scr)" using p2 l1 memcpy_length by metis
  obtain p3 where p3: "memcpy p2 (126 * ?ps + 0) ?fp (125 * ?pf + 0) 64 = Inr p3"
    using memcpy_ok [of 64 "126 * ?ps + 0" p2 "125 * ?pf + 0" ?fp] g l2
    by auto
  have l3: "length p3 = length (pixels ?scr)" using p3 l2 memcpy_length by metis
  obtain p4 where p4: "memcpy p3 (127 * ?ps + 0) ?fp (128 * ?pf + 0) 64 = Inr p4"
    using memcpy_ok [of 64 "127 * ?ps + 0" p3 "128 * ?pf + 0" ?fp] g l3
    by auto
  have l4: "length p4 = length (pixels ?scr)" using p4 l3 memcpy_length by metis
  let ?s1 = "call (CopyRectToScreen (getBasePtr frame (?W - 188) 123) ?pf (?W - 188) 124 188 1)
               (s\<lparr>screen := ?scr\<lparr>pixels := p1\<rparr>\<rparr>)"
  let ?s2 = "call (CopyRectToScreen (getBasePtr frame (?W - 188) 126) ?pf (?W - 188) 125 188 1)
               (?s1\<lparr>screen := (screen ?s1)\<lparr>pixels := p2\<rparr>\<rparr>)"
  let ?s3 = "call (CopyRectToScreen (getBasePtr frame 0 125) ?pf 0 126 64 1)
               (?s2\<lparr>screen := (screen ?s2)\<lparr>pixels := p3\<rparr>\<rparr>)"
  let ?s4 = "call (CopyRectToScreen (getBasePtr frame 0 128) ?pf 0 127 64 1)
               (?s3\<lparr>screen := (screen ?s3)\<lparr>pixels := p4\<rparr>\<rparr>)"
  have c1: "copyRectToScreen ?fp (getBasePtr frame (?W - 188) 123) ?pf (?W - 188) 124 188 1 s = Inr ?s1"
    using p1 g by (intro copyRectToScreen_row) (simp_all add: getBasePtr_def)
  have c2: "copyRectToScreen ?fp (getBasePtr frame (?W - 188) 126) ?pf (?W - 188) 125 188 1 ?s1 = Inr ?s2"
    using p2 g by (intro copyRectToScreen_row) (simp_all add: getBasePtr_def call_def)
  have c3: "copyRectToScreen ?fp (getBasePtr frame 0 125) ?pf 0 126 64 1 ?s2 = Inr ?s3"
    using p3 g by (intro copyRectToScreen_row) (simp_all add: getBasePtr_def call_def)
  have c4: "copyRectToScreen ?fp (getBasePtr frame 0 128) ?pf 0 127 64 1 ?s3 = Inr ?s4"
    using p4 g by (intro copyRectToScreen_row) (simp_all add: getBasePtr_def call_def)
  have res: "glitchWorkaround frame s =
            Inr (s\<lparr>screen := ?scr\<lparr>pixels := p4\<rparr>,
                   calls := calls s @ glitchWorkaroundCalls frame\<rparr>)"
  proof -
    have "glitchWorkaround frame s = Inr ?s4"
      by (simp only: glitchWorkaround_def c1 c2 c3 c4 sum.case)
    also have "?s4 = s\<lparr>screen := ?scr\<lparr>pixels := p4\<rparr>,
                   calls := calls s @ glitchWorkaroundCalls frame\<rparr>"
      by (simp add: call_def glitchWorkaroundCalls_def)
    finally show ?thesis .
  qed
  have nth: "p4 ! nat i =
      (if 127 * ?ps \<le> i \<and> i < 127 * ?ps + 64 then ?fp ! nat (128 * ?pf + (i - 127 * ?ps))
       else if 126 * ?ps \<le> i \<and> i < 126 * ?ps + 64 then ?fp ! nat (125 * ?pf + (i - 126 * ?ps))
       else if 125 * ?ps + (?W - 188) \<le> i \<and> i < 125 * ?ps + ?W
         then ?fp ! nat (126 * ?pf + (?W - 188) + (i - (125 * ?ps + (?W - 188))))
       else if 124 * ?ps + (?W - 188) \<le> i \<and> i < 124 * ?ps + ?W
         then ?fp ! nat (123 * ?pf + (?W - 188) + (i - (124 * ?ps + (?W - 188))))
       else pixels ?scr ! nat i)"
    if "0 \<le> i" "i < ?L" for i
    using memcpy_nth [OF p4, of i] memcpy_nth [OF p3, of i] memcpy_nth [OF p2, of i]
      memcpy_nth [OF p1, of i] that l1 l2 l3 by simp
  have wide: "px ! nat (getBasePtr ?scr x 124) = ?fp ! nat (getBasePtr frame x 123)
         \<and> px ! nat (getBasePtr ?scr x 125) = ?fp ! nat (getBasePtr frame x 126)"
    if "?W - 188 \<le> x \<and> x < ?W" and "px = p4" for x px
  proof -
    have a: "0 \<le> 124 * ?ps + x" "124 * ?ps + x < ?L" "0 \<le> 125 * ?ps + x" "125 * ?ps + x < ?L"
      using that g by simp_all
    have e1: "123 * ?pf + (?W - 188) + (124 * ?ps + x - (124 * ?ps + (?W - 188))) = 123 * ?pf + x"
      and e2: "126 * ?pf + (?W - 188) + (125 * ?ps + x - (125 * ?ps + (?W - 188))) = 126 * ?pf + x"
      by simp_all
    show ?thesis
      using nth [OF a(1,2)] nth [OF a(3,4)] that g unfolding getBasePtr_def
      by (simp add: e1 e2)
  qed
  have narrow: "px ! nat (getBasePtr ?scr x 126) = ?fp ! nat (getBasePtr frame x 125)
         \<and> px ! nat (getBasePtr ?scr x 127) = ?fp ! nat (getBasePtr frame x 128)"
    if "0 \<le> x \<and> x < 64" and "px = p4" for x px
  proof -
    have a: "0 \<le> 126 * ?ps + x" "126 * ?ps + x < ?L" "0 \<le> 127 * ?ps + x" "127 * ?ps + x < ?L"
      using that g by simp_all
    show ?thesis
      using nth [OF a(1,2)] nth [OF a(3,4)] that g unfolding getBasePtr_def by simp
  qed
  have other: "p4 ! nat i = pixels ?scr ! nat i"
    if a: "0 \<le> i \<and> i < ?L
           \<and> (\<forall>x. ?W - 188 \<le> x \<and> x < ?W \<longrightarrow>
                  i \<noteq> getBasePtr ?scr x 124 \<and> i \<noteq> getBasePtr ?scr x 125)
           \<and> (\<forall>x. 0 \<le> x \<and> x < 64 \<longrightarrow>
                  i \<noteq> getBasePtr ?scr x 126 \<and> i \<noteq> getBasePtr ?scr x 127)" for i
  proof -
    from a have i: "0 \<le> i" "i < ?L"
      and o1: "\<And>x. ?W - 188 \<le> x \<Longrightarrow> x < ?W \<Longrightarrow> i \<noteq> 124 * ?ps + x \<and> i \<noteq> 125 * ?ps + x"
      and o2: "\<And>x. 0 \<le> x \<Longrightarrow> x < 64 \<Longrightarrow> i \<noteq> 126 * ?ps + x \<and> i \<noteq> 127 * ?ps + x"
      by (simp_all add: getBasePtr_def)
    have n1: "\<not> (124 * ?ps + (?W - 188) \<le> i \<and> i < 124 * ?ps + ?W)"
      using o1 [of "i - 124 * ?ps"] by auto
    have n2: "\<not> (125 * ?ps + (?W - 188) \<le> i \<and> i < 125 * ?ps + ?W)"
      using o1 [of "i - 125 * ?ps"] by auto
    have n3: "\<not> (126 * ?ps \<le> i \<and> i < 126 * ?ps + 64)"
      using o2 [of "i - 126 * ?ps"] by auto
    have n4: "\<not> (127 * ?ps \<le> i \<and> i < 127 * ?ps + 64)"
      using o2 [of "i - 127 * ?ps"] by auto
    show ?thesis using nth [OF i] n1 n2 n3 n4 by simp
  qed
  show ?thesis
    using res l4 wide narrow other
    by (intro exI [where x = p4] conjI allI impI) blast+
qed

lemma showFrame_workaround_calls:
  assumes d: "decodeNextFrame t = Some frame" and nl: "\<not> isLowRes (decoderState t)"
    and sf: "showFrame fx isFirst t s = Inr (s', u)"
  shows "(\<exists>pre. calls s' = pre @ glitchWorkaroundCalls frame)
           = (isFirst \<and> 956 \<le> getCurFrame t \<and> getCurFrame t \<le> 1038)"
proof (cases "isFirst \<and> 956 \<le> getCurFrame t \<and> getCurFrame t \<le> 1038")
  case True
  with showFrame_calls [OF d nl sf]
  have "calls s' = (calls s @ [CopyRectToScreen 0 (pitch frame) 0 0 (w frame) (h frame),
            Render frame (getCurFrame t) u]) @ glitchWorkaroundCalls frame"
    by simp
  then have "\<exists>pre. calls s' = pre @ glitchWorkaroundCalls frame" by (rule exI)
  with True show ?thesis by simp
next
  case False
  with showFrame_calls [OF d nl sf]
  have c: "calls s' = calls s @ [CopyRectToScreen 0 (pitch frame) 0 0 (w frame) (h frame),
            Render frame (getCurFrame t) u]"
    by simp
  have "\<not> (\<exists>pre. calls s' = pre @ glitchWorkaroundCalls frame)"
  proof
    assume "\<exists>pre. calls s' = pre @ glitchWorkaroundCalls frame"
    then obtain pre where p: "calls s' = pre @ glitchWorkaroundCalls frame" by blast
    have "last (calls s') = Render frame (getCurFrame t) u" unfolding c by simp
    moreover have "last (calls s') = CopyRectToScreen (getBasePtr frame 0 128) (pitch frame) 0 127 64 1"
      unfolding p by (simp add: glitchWorkaroundCalls_def)
    ultimately show False by simp
  qed
  with False show ?thesis by simp
qed

lemma showFrame_fits:
  assumes d: "decodeNextFrame t = Some frame" and nl: "\<not> isLowRes (decoderState t)"
    and f1: "0 \<le> w frame" and f2: "w frame \<le> pitch frame" and f3: "0 \<le> h frame"
    and f4: "h frame * pitch frame \<le> int (length (pixels frame))"
    and f5: "length (pixels frame) < 4294967296"
    and s1: "w frame \<le> w (screen s)" and s2: "h frame \<le> h (screen s)"
    and s3: "w (screen s) \<le> pitch (screen s)"
    and s4: "h (screen s) * pitch (screen s) \<le> int (length (pixels (screen s)))"
  shows "\<exists>px u. showFrame fx False t s =
            Inr (render fx frame (getCurFrame t) u
                   (call (CopyRectToScreen 0 (pitch frame) 0 0 (w frame) (h frame))
                      (s\<lparr>screen := (screen s)\<lparr>pixels := px\<rparr>\<rparr>)), u)
           \<and> length px = length (pixels (screen s))"
proof -
  let ?ps = "pitch (screen s)" and ?pf = "pitch frame"
  have ps0: "0 \<le> ?ps" using f1 s1 s3 by simp
  have pf0: "0 \<le> ?pf" using f1 f2 by simp
  have "h frame * ?ps \<le> h (screen s) * ?ps" using s2 ps0 by (rule mult_right_mono)
  then have dst: "(0 + int (nat (h frame))) * ?ps \<le> int (length (pixels (screen s)))"
    using s4 f3 by simp
  have src: "0 + int (nat (h frame)) * ?pf \<le> int (length (pixels frame))" using f4 f3 by simp
  have xw: "0 + w frame \<le> ?ps" using s1 s3 by simp
  have z: "(0::int) \<le> 0" by simp
  from copyRows_ok [OF f1 z xw z dst z f2 src]
  obtain px where cr: "copyRows (pixels frame) 0 ?pf 0 0 (w frame) (nat (h frame)) (screen s)
                         = Inr ((screen s)\<lparr>pixels := px\<rparr>)"
    and lpx: "length px = length (pixels (screen s))" by blast
  have c: "copyRectToScreen (pixels frame) 0 ?pf 0 0 (w frame) (h frame) s =
             Inr (call (CopyRectToScreen 0 ?pf 0 0 (w frame) (h frame))
                    (s\<lparr>screen := (screen s)\<lparr>pixels := px\<rparr>\<rparr>))"
    using f1 f3 s1 s2 cr by (simp add: copyRectToScreen_def)
  have "w frame * h frame \<le> ?pf * h frame" using f2 f3 by (rule mult_right_mono)
  then have wh: "w frame * h frame \<le> int (length (pixels frame))"
    using f4 by (simp add: mult.commute)
  from colorKey_spec [OF f1 f3 wh f5] obtain k where k: "colorKey frame = Inr k" by blast
  have "showFrame fx False t s =
            Inr (render fx frame (getCurFrame t) k
                   (call (CopyRectToScreen 0 ?pf 0 0 (w frame) (h frame))
                      (s\<lparr>screen := (screen s)\<lparr>pixels := px\<rparr>\<rparr>)), k)"
    using d nl by (simp add: showFrame_def c k)
  with lpx show ?thesis by blast
qed

lemma showFrame_first:
  assumes "decodeNextFrame t = Some frame" and "\<not> isLowRes (decoderState t)"
    and "showFrame fx False t s = Inr (s2, u)"
  shows "showFrame fx isFirst t s =
           (if isFirst \<and> 956 \<le> getCurFrame t \<and> getCurFrame t \<le> 1038
            then (case glitchWorkaround frame s2 of Inl e \<Rightarrow> Inl e | Inr s3 \<Rightarrow> Inr (s3, u))
            else Inr (s2, u))"
  using assms by (auto simp: showFrame_def Let_def split: sum.splits)

subsection \<open>A pass inside a run of \<open>play\<close>\<close>

text \<open>
  \<open>passes\<close> runs the passes of the loop that come before the one looked at; the loop
  on the whole list of passes continues from the state they leave.
\<close>

lemma playLoop_passes:
  assumes "passes fx b before s = Some s'"
  shows "playLoop fx b (before @ rest) s = playLoop fx b rest s'"
  using assms
proof (induction before arbitrary: s)
  case Nil
  then show ?case by simp
next
  case (Cons t ts)
  then show ?case
    by (auto split: if_splits sum.splits)
qed

lemma setPalette_calls:
  assumes "setPalette colors start num s = Inr s'"
  shows "calls s' = calls s @ [SetPalette colors start num]"
  using assms by (auto simp: setPalette_def call_def split: if_splits sum.splits)

lemma showFrame_grows:
  assumes "showFrame fx b t s = Inr (s1, u)"
  shows "\<exists>r. calls s1 = calls s @ r"
proof (cases "decodeNextFrame t")
  case None
  with assms show ?thesis by (simp add: showFrame_def)
next
  case (Some frame)
  show ?thesis
  proof (cases "isLowRes (decoderState t)")
    case True
    with assms Some show ?thesis
      by (auto simp: showFrame_def scale2x_def call_def split: sum.splits)
  next
    case False
    from showFrame_calls [OF Some False assms] show ?thesis by blast
  qed
qed

lemma updateFrame_split:
  assumes "updateFrame fx b t s = Inr s'"
  shows "\<exists>s1 u r. showFrame fx b t s = Inr (s1, u)
           \<and> calls s' = calls s1 @ SetPalette (getPalette t) 0 256 # r"
proof -
  from assms obtain s1 u s2 where sf: "showFrame fx b t s = Inr (s1, u)"
    and p1: "setPalette (getPalette t) 0 256 s1 = Inr s2"
    and r: "if u \<noteq> 0
            then (\<exists>s3. setPalette subtitleColor (unat u) 1 s2 = Inr s3 \<and> s' = call UpdateScreen s3)
            else s' = call UpdateScreen s2"
    by (auto simp: updateFrame_def split: sum.splits if_splits prod.splits)
  have c2: "calls s2 = calls s1 @ [SetPalette (getPalette t) 0 256]"
    using p1 by (rule setPalette_calls)
  have "\<exists>r. calls s' = calls s2 @ r"
  proof (cases "u = 0")
    case True
    with r show ?thesis by (simp add: call_def)
  next
    case False
    with r obtain s3 where "setPalette subtitleColor (unat u) 1 s2 = Inr s3"
      and "s' = call UpdateScreen s3" by auto
    then show ?thesis using setPalette_calls [of subtitleColor "unat u" 1 s2 s3]
      by (simp add: call_def)
  qed
  then obtain r where "calls s' = calls s2 @ r" by blast
  with c2 have "calls s' = calls s1 @ SetPalette (getPalette t) 0 256 # r" by simp
  with sf show ?thesis by blast
qed

lemma updateFrame_grows:
  assumes "updateFrame fx b t s = Inr s'"
  shows "\<exists>r. calls s' = calls s @ r"
proof -
  from updateFrame_split [OF assms] obtain s1 u r where
    sf: "showFrame fx b t s = Inr (s1, u)"
    and c: "calls s' = calls s1 @ SetPalette (getPalette t) 0 256 # r" by blast
  from showFrame_grows [OF sf] obtain r0 where "calls s1 = calls s @ r0" by blast
  with c have "calls s' = calls s @ (r0 @ SetPalette (getPalette t) 0 256 # r)" by simp
  then show ?thesis by blast
qed

lemma playLoop_grows:
  assumes "playLoop fx b ts s = Some (Inr s')"
  shows "\<exists>r. calls s' = calls s @ r"
  using assms
proof (induction ts arbitrary: s)
  case Nil
  then show ?case by simp
next
  case (Cons t ts)
  show ?case
  proof (cases "\<not> shouldQuit t \<and> \<not> endOfVideo t")
    case False
    with Cons.prems have "s' = call DirtyAllScreen s" by auto
    then show ?thesis by (simp add: call_def)
  next
    case True
    obtain s1 where s1: "(if needsUpdate t then updateFrame fx b t s else Inr s) = Inr s1"
      using Cons.prems True by (auto split: sum.splits)
    have g1: "\<exists>r. calls s1 = calls s @ r"
    proof (cases "needsUpdate t")
      case True
      with s1 show ?thesis using updateFrame_grows by simp
    next
      case False
      with s1 show ?thesis by simp
    qed
    then obtain r1 where r1: "calls s1 = calls s @ r1" by blast
    show ?thesis
    proof (cases "list_ex escapePressed (pollEvent t)")
      case esc: True
      with Cons.prems True s1 have "s' = call DirtyAllScreen s1" by simp
      with r1 show ?thesis by (simp add: call_def)
    next
      case esc: False
      with Cons.prems True s1
      have "playLoop fx b ts (call (DelayMillis 10) s1) = Some (Inr s')" by simp
      from Cons.IH [OF this] obtain r2 where "calls s' = calls (call (DelayMillis 10) s1) @ r2"
        by blast
      with r1 show ?thesis by (simp add: call_def)
    qed
  qed
qed

lemma play_loop:
  assumes "play fx video flags True isMusicMuted ts (m, s0) = Some (Inr (m', s'))"
  shows "\<exists>s3 r. playLoop fx (video = ''209_1M.SMK'') ts
            (call Start (call (SubtitleLoad video) (call (LoadFile video)
               (if flags AND 1 \<noteq> 0 then setMusicVolume 0 s0 else s0)))) = Some (Inr s3)
          \<and> calls s' = calls s3 @ r"
  using assms
  by (auto simp: play_def playVideo_def Let_def call_def setMusicVolume_def
      split: option.splits sum.splits if_splits)


lemma workaround_effect:
  assumes d: "decodeNextFrame t = Some frame" and nl: "\<not> isLowRes (decoderState t)"
    and f1: "188 \<le> w frame" and f2: "w frame \<le> pitch frame" and f3: "129 \<le> h frame"
    and f4: "h frame * pitch frame \<le> int (length (pixels frame))"
    and f5: "length (pixels frame) < 4294967296"
    and s1: "w frame \<le> w (screen s)" and s2: "h frame \<le> h (screen s)"
    and s3: "w (screen s) \<le> pitch (screen s)"
    and s4: "h (screen s) * pitch (screen s) \<le> int (length (pixels (screen s)))"
    and fxg: "\<And>k scr. w (fx frame (getCurFrame t) k scr) = w scr
                   \<and> h (fx frame (getCurFrame t) k scr) = h scr
                   \<and> pitch (fx frame (getCurFrame t) k scr) = pitch scr
                   \<and> length (pixels (fx frame (getCurFrame t) k scr)) = length (pixels scr)"
    and range: "956 \<le> getCurFrame t" "getCurFrame t \<le> 1038"
  shows "\<exists>s2 u px. showFrame fx False t s = Inr (s2, u)
            \<and> showFrame fx True t s =
                 Inr (s2\<lparr>screen := (screen s2)\<lparr>pixels := px\<rparr>,
                           calls := calls s2 @ glitchWorkaroundCalls frame\<rparr>, u)
            \<and> length px = length (pixels (screen s2))
            \<and> (\<forall>x. w frame - 188 \<le> x \<and> x < w frame \<longrightarrow>
                  px ! nat (getBasePtr (screen s2) x 124) = pixels frame ! nat (getBasePtr frame x 123)
                \<and> px ! nat (getBasePtr (screen s2) x 125) = pixels frame ! nat (getBasePtr frame x 126))
            \<and> (\<forall>x. 0 \<le> x \<and> x < 64 \<longrightarrow>
                  px ! nat (getBasePtr (screen s2) x 126) = pixels frame ! nat (getBasePtr frame x 125)
                \<and> px ! nat (getBasePtr (screen s2) x 127) = pixels frame ! nat (getBasePtr frame x 128))
            \<and> (\<forall>i. 0 \<le> i \<and> i < int (length (pixels (screen s2)))
                  \<and> (\<forall>x. w frame - 188 \<le> x \<and> x < w frame \<longrightarrow>
                         i \<noteq> getBasePtr (screen s2) x 124 \<and> i \<noteq> getBasePtr (screen s2) x 125)
                  \<and> (\<forall>x. 0 \<le> x \<and> x < 64 \<longrightarrow>
                         i \<noteq> getBasePtr (screen s2) x 126 \<and> i \<noteq> getBasePtr (screen s2) x 127)
                 \<longrightarrow> px ! nat i = pixels (screen s2) ! nat i)"
proof -
  have w0: "0 \<le> w frame" and h0: "0 \<le> h frame" using f1 f3 by simp_all
  from showFrame_fits [OF d nl w0 f2 h0 f4 f5 s1 s2 s3 s4, of fx]
  obtain px1 u where sf: "showFrame fx False t s =
            Inr (render fx frame (getCurFrame t) u
                   (call (CopyRectToScreen 0 (pitch frame) 0 0 (w frame) (h frame))
                      (s\<lparr>screen := (screen s)\<lparr>pixels := px1\<rparr>\<rparr>)), u)"
    and lpx1: "length px1 = length (pixels (screen s))" by blast
  let ?s2 = "render fx frame (getCurFrame t) u
                   (call (CopyRectToScreen 0 (pitch frame) 0 0 (w frame) (h frame))
                      (s\<lparr>screen := (screen s)\<lparr>pixels := px1\<rparr>\<rparr>))"
  have scr2: "screen ?s2 = fx frame (getCurFrame t) u ((screen s)\<lparr>pixels := px1\<rparr>)"
    by (simp add: render_def call_def)
  have geo: "w (screen ?s2) = w (screen s)" "h (screen ?s2) = h (screen s)"
    "pitch (screen ?s2) = pitch (screen s)"
    "length (pixels (screen ?s2)) = length (pixels (screen s))"
    unfolding scr2 using fxg [of u "(screen s)\<lparr>pixels := px1\<rparr>"] lpx1 by simp_all
  have pf0: "0 \<le> pitch frame" and ps0: "0 \<le> pitch (screen s)" using f1 f2 s1 s3 by simp_all
  have "129 * pitch frame \<le> h frame * pitch frame" using f3 pf0 by (rule mult_right_mono)
  then have g3: "129 * pitch frame \<le> int (length (pixels frame))" using f4 by simp
  have hs: "128 \<le> h (screen s)" using f3 s2 by simp
  then have "128 * pitch (screen s) \<le> h (screen s) * pitch (screen s)"
    using ps0 by (rule mult_right_mono)
  then have g7: "128 * pitch (screen ?s2) \<le> int (length (pixels (screen ?s2)))"
    using s4 geo by simp
  have g4: "w frame \<le> w (screen ?s2)" and g5: "128 \<le> h (screen ?s2)"
    and g6: "w (screen ?s2) \<le> pitch (screen ?s2)"
    using s1 hs s3 geo by simp_all
  from glitchWorkaround_spec [OF f1 f2 g3 g4 g5 g6 g7]
  obtain px where gw: "glitchWorkaround frame ?s2 =
            Inr (?s2\<lparr>screen := (screen ?s2)\<lparr>pixels := px\<rparr>,
                   calls := calls ?s2 @ glitchWorkaroundCalls frame\<rparr>)"
    and lpx: "length px = length (pixels (screen ?s2))"
    and wide: "\<forall>x. w frame - 188 \<le> x \<and> x < w frame \<longrightarrow>
           px ! nat (getBasePtr (screen ?s2) x 124) = pixels frame ! nat (getBasePtr frame x 123)
         \<and> px ! nat (getBasePtr (screen ?s2) x 125) = pixels frame ! nat (getBasePtr frame x 126)"
    and narrow: "\<forall>x. 0 \<le> x \<and> x < 64 \<longrightarrow>
           px ! nat (getBasePtr (screen ?s2) x 126) = pixels frame ! nat (getBasePtr frame x 125)
         \<and> px ! nat (getBasePtr (screen ?s2) x 127) = pixels frame ! nat (getBasePtr frame x 128)"
    and other: "\<forall>i. 0 \<le> i \<and> i < int (length (pixels (screen ?s2)))
           \<and> (\<forall>x. w frame - 188 \<le> x \<and> x < w frame \<longrightarrow>
                  i \<noteq> getBasePtr (screen ?s2) x 124 \<and> i \<noteq> getBasePtr (screen ?s2) x 125)
           \<and> (\<forall>x. 0 \<le> x \<and> x < 64 \<longrightarrow>
                  i \<noteq> getBasePtr (screen ?s2) x 126 \<and> i \<noteq> getBasePtr (screen ?s2) x 127)
          \<longrightarrow> px ! nat i = pixels (screen ?s2) ! nat i"
    by blast
  have app: "showFrame fx True t s =
                 Inr (?s2\<lparr>screen := (screen ?s2)\<lparr>pixels := px\<rparr>,
                           calls := calls ?s2 @ glitchWorkaroundCalls frame\<rparr>, u)"
    unfolding showFrame_first [OF d nl sf] gw using range by simp
  show ?thesis
    by (rule exI [where x = ?s2], rule exI [where x = u], rule exI [where x = px], intro conjI)
       (rule sf, rule app, rule lpx, rule wide, rule narrow, rule other)
qed

lemma play_pass_calls:
  assumes reach: "passes fx (video = ''209_1M.SMK'') before
            (call Start (call (SubtitleLoad video) (call (LoadFile video)
               (if flags AND 1 \<noteq> 0 then setMusicVolume 0 s0 else s0)))) = Some s"
    and nq: "\<not> shouldQuit t" and ne: "\<not> endOfVideo t" and nu: "needsUpdate t"
    and d: "decodeNextFrame t = Some frame" and nl: "\<not> isLowRes (decoderState t)"
    and pl: "play fx video flags True isMusicMuted (before @ t # after) (m, s0) = Some (Inr (m', s'))"
  shows "\<exists>u rest. calls s' = calls s @
            [CopyRectToScreen 0 (pitch frame) 0 0 (w frame) (h frame),
             Render frame (getCurFrame t) u] @
            (if video = ''209_1M.SMK'' \<and> 956 \<le> getCurFrame t \<and> getCurFrame t \<le> 1038
             then glitchWorkaroundCalls frame else []) @
            SetPalette (getPalette t) 0 256 # rest"
proof -
  let ?b = "video = ''209_1M.SMK''"
  from play_loop [OF pl] obtain s3 r3 where
    lp: "playLoop fx ?b (before @ t # after)
            (call Start (call (SubtitleLoad video) (call (LoadFile video)
               (if flags AND 1 \<noteq> 0 then setMusicVolume 0 s0 else s0)))) = Some (Inr s3)"
    and c3: "calls s' = calls s3 @ r3" by blast
  have lt: "playLoop fx ?b (t # after) s = Some (Inr s3)"
    using lp unfolding playLoop_passes [OF reach] .
  obtain s1 where uf: "updateFrame fx ?b t s = Inr s1"
    using lt nq ne nu by (auto split: sum.splits)
  have "\<exists>r. calls s3 = calls s1 @ r"
  proof (cases "list_ex escapePressed (pollEvent t)")
    case True
    with lt nq ne nu uf have "s3 = call DirtyAllScreen s1" by simp
    then show ?thesis by (simp add: call_def)
  next
    case False
    with lt nq ne nu uf
    have "playLoop fx ?b after (call (DelayMillis 10) s1) = Some (Inr s3)" by simp
    from playLoop_grows [OF this] obtain r where
      "calls s3 = calls (call (DelayMillis 10) s1) @ r" by blast
    then have "calls s3 = calls s1 @ (DelayMillis 10 # r)" by (simp add: call_def)
    then show ?thesis by (rule exI)
  qed
  then obtain r1 where c1: "calls s3 = calls s1 @ r1" by blast
  from updateFrame_split [OF uf] obtain sf u r0 where
    sh: "showFrame fx ?b t s = Inr (sf, u)"
    and c0: "calls s1 = calls sf @ SetPalette (getPalette t) 0 256 # r0" by blast
  from showFrame_calls [OF d nl sh]
  have cf: "calls sf = calls s @
           [CopyRectToScreen 0 (pitch frame) 0 0 (w frame) (h frame),
            Render frame (getCurFrame t) u] @
           (if ?b \<and> 956 \<le> getCurFrame t \<and> getCurFrame t \<le> 1038
            then glitchWorkaroundCalls frame else [])" by simp
  have "calls s' = calls s @
            [CopyRectToScreen 0 (pitch frame) 0 0 (w frame) (h frame),
             Render frame (getCurFrame t) u] @
            (if ?b \<and> 956 \<le> getCurFrame t \<and> getCurFrame t \<le> 1038
             then glitchWorkaroundCalls frame else []) @
            SetPalette (getPalette t) 0 256 # (r0 @ r1 @ r3)"
    unfolding c3 c1 c0 cf by simp
  then show ?thesis by blast
qed

lemma updateFrame_screen:
  assumes sf: "showFrame fx b t s = Inr (s1, u)"
    and p: "length (palette s) = 768" and g: "768 \<le> length (getPalette t)"
  shows "\<exists>s'. updateFrame fx b t s = Inr s' \<and> screen s' = screen s1"
proof -
  have p1: "length (palette s1) = 768" using showFrame_palette [OF sf] p by simp
  note full = setPalette_full [OF p1 g]
  let ?s2 = "call (SetPalette (getPalette t) 0 256) (s1\<lparr>palette := take 768 (getPalette t)\<rparr>)"
  have p2: "length (palette ?s2) = 768" using g by (simp add: call_def)
  show ?thesis
  proof (cases "u = 0")
    case True
    then show ?thesis by (simp add: updateFrame_def sf full call_def)
  next
    case False
    with setPalette_one [OF p2 unat_byte_lt [of u]] show ?thesis
      by (simp add: updateFrame_def sf full call_def)
  qed
qed

lemma play_single_pass_screen:
  assumes "\<not> shouldQuit t" and "\<not> endOfVideo t" and "needsUpdate t"
    and "\<not> list_ex escapePressed (pollEvent t)"
    and "updateFrame fx (video = ''209_1M.SMK'') t
           (call Start (call (SubtitleLoad video) (call (LoadFile video)
              (if flags AND 1 \<noteq> 0 then setMusicVolume 0 s0 else s0)))) = Inr s1"
    and "shouldQuit tEnd \<or> endOfVideo tEnd"
  shows "\<exists>m' s'. play fx video flags True isMusicMuted [t, tEnd] (m, s0) = Some (Inr (m', s'))
            \<and> screen s' = screen s1"
  using assms by (auto simp: play_def playVideo_def Let_def call_def setMusicVolume_def)

text \<open>
  C3, as stated, fails on a low-res frame. \<open>play\<close> is run on "209_1M.SMK" with a
  decoder that reports low-res at frame 1000, which lies between 956 and 1038: the
  frame goes through the row-doubling branch, and no \<open>copyRectToScreen\<close> call is made
  at all, so the workaround is not applied.
\<close>

theorem glitchWorkaround_lowRes_counterexample:
  "play noSubtitles ''209_1M.SMK'' 0 True False [sampleTick True, lastTick]
      (\<lparr>playing = False, decoderPtr = 3, subtitlePtr = 6\<rparr>, sampleHost)
     = Some (Inr (\<lparr>playing = False, decoderPtr = 3, subtitlePtr = 6\<rparr>,
                  sampleHost\<lparr>screen := \<lparr>w = 2, h = 2, pitch = 2, pixels = [1, 2, 1, 2]\<rparr>,
                              palette := replicate 768 7,
                              calls := [LoadFile ''209_1M.SMK'', SubtitleLoad ''209_1M.SMK'',
                                        Start, LockScreen, UnlockScreen,
                                        SetPalette (replicate 768 7) 0 256, UpdateScreen,
                                        DelayMillis 10, DirtyAllScreen, FlushPalette True,
                                        Close]\<rparr>))
   \<and> getCurFrame (sampleTick True) = 1000
   \<and> decodeNextFrame (sampleTick True) = Some sampleFrame"
  by code_simp

text \<open>
  C3, amended. Take a run of \<open>play\<close> on any video and a pass of its loop that the run
  reaches, in which a frame that is not low-res is decoded. If the run returns, the
  calls of that pass are the copy of the frame to the screen and the subtitle
  renderer, then the four calls of the workaround if and only if the video is
  "209_1M.SMK" and the current frame number is between 956 and 1038 inclusive, then
  the palette. If moreover the frame is at least 188 wide and 129 high, the frame lies
  in its buffer and fits on the screen, the screen lies in its buffer, and the subtitle
  renderer leaves the size of the screen alone, then for a frame number in that range
  the frame block of "209_1M.SMK" returns what the frame block of another video
  returns, changed as follows: the four calls are added, screen row 124 holds frame
  row 123 and screen row 125 holds frame row 126 over the last 188 columns of the
  frame, screen row 126 holds frame row 125 and screen row 127 holds frame row 128
  over the first 64 columns, and every other byte of the screen is the same.
\<close>

theorem glitchWorkaround_applied:
  assumes "passes fx (video = ''209_1M.SMK'') before
            (call Start (call (SubtitleLoad video) (call (LoadFile video)
               (if flags AND 1 \<noteq> 0 then setMusicVolume 0 s0 else s0)))) = Some s"
    and "\<not> shouldQuit t" and "\<not> endOfVideo t" and "needsUpdate t"
    and "decodeNextFrame t = Some frame" and "\<not> isLowRes (decoderState t)"
  shows "(\<forall>m' s'. play fx video flags True isMusicMuted (before @ t # after) (m, s0)
                    = Some (Inr (m', s')) \<longrightarrow>
            (\<exists>u rest. calls s' = calls s @
               [CopyRectToScreen 0 (pitch frame) 0 0 (w frame) (h frame),
                Render frame (getCurFrame t) u] @
               (if video = ''209_1M.SMK'' \<and> 956 \<le> getCurFrame t \<and> getCurFrame t \<le> 1038
                then glitchWorkaroundCalls frame else []) @
               SetPalette (getPalette t) 0 256 # rest))
     \<and> (188 \<le> w frame \<and> w frame \<le> pitch frame \<and> 129 \<le> h frame
         \<and> h frame * pitch frame \<le> int (length (pixels frame))
         \<and> length (pixels frame) < 4294967296
         \<and> w frame \<le> w (screen s) \<and> h frame \<le> h (screen s)
         \<and> w (screen s) \<le> pitch (screen s)
         \<and> h (screen s) * pitch (screen s) \<le> int (length (pixels (screen s)))
         \<and> (\<forall>k scr. w (fx frame (getCurFrame t) k scr) = w scr
                   \<and> h (fx frame (getCurFrame t) k scr) = h scr
                   \<and> pitch (fx frame (getCurFrame t) k scr) = pitch scr
                   \<and> length (pixels (fx frame (getCurFrame t) k scr)) = length (pixels scr))
         \<and> 956 \<le> getCurFrame t \<and> getCurFrame t \<le> 1038
        \<longrightarrow>
         (\<exists>s2 u px. showFrame fx False t s = Inr (s2, u)
            \<and> showFrame fx True t s =
                 Inr (s2\<lparr>screen := (screen s2)\<lparr>pixels := px\<rparr>,
                           calls := calls s2 @ glitchWorkaroundCalls frame\<rparr>, u)
            \<and> length px = length (pixels (screen s2))
            \<and> (\<forall>x. w frame - 188 \<le> x \<and> x < w frame \<longrightarrow>
                  px ! nat (getBasePtr (screen s2) x 124) = pixels frame ! nat (getBasePtr frame x 123)
                \<and> px ! nat (getBasePtr (screen s2) x 125) = pixels frame ! nat (getBasePtr frame x 126))
            \<and> (\<forall>x. 0 \<le> x \<and> x < 64 \<longrightarrow>
                  px ! nat (getBasePtr (screen s2) x 126) = pixels frame ! nat (getBasePtr frame x 125)
                \<and> px ! nat (getBasePtr (screen s2) x 127) = pixels frame ! nat (getBasePtr frame x 128))
            \<and> (\<forall>i. 0 \<le> i \<and> i < int (length (pixels (screen s2)))
                  \<and> (\<forall>x. w frame - 188 \<le> x \<and> x < w frame \<longrightarrow>
                         i \<noteq> getBasePtr (screen s2) x 124 \<and> i \<noteq> getBasePtr (screen s2) x 125)
                  \<and> (\<forall>x. 0 \<le> x \<and> x < 64 \<longrightarrow>
                         i \<noteq> getBasePtr (screen s2) x 126 \<and> i \<noteq> getBasePtr (screen s2) x 127)
                 \<longrightarrow> px ! nat i = pixels (screen s2) ! nat i)))"
proof (intro conjI allI impI)
  fix m' s'
  assume "play fx video flags True isMusicMuted (before @ t # after) (m, s0) = Some (Inr (m', s'))"
  with assms show "\<exists>u rest. calls s' = calls s @
               [CopyRectToScreen 0 (pitch frame) 0 0 (w frame) (h frame),
                Render frame (getCurFrame t) u] @
               (if video = ''209_1M.SMK'' \<and> 956 \<le> getCurFrame t \<and> getCurFrame t \<le> 1038
                then glitchWorkaroundCalls frame else []) @
               SetPalette (getPalette t) 0 256 # rest"
    by (rule play_pass_calls)
next
  assume G: "188 \<le> w frame \<and> w frame \<le> pitch frame \<and> 129 \<le> h frame
         \<and> h frame * pitch frame \<le> int (length (pixels frame))
         \<and> length (pixels frame) < 4294967296
         \<and> w frame \<le> w (screen s) \<and> h frame \<le> h (screen s)
         \<and> w (screen s) \<le> pitch (screen s)
         \<and> h (screen s) * pitch (screen s) \<le> int (length (pixels (screen s)))
         \<and> (\<forall>k scr. w (fx frame (getCurFrame t) k scr) = w scr
                   \<and> h (fx frame (getCurFrame t) k scr) = h scr
                   \<and> pitch (fx frame (getCurFrame t) k scr) = pitch scr
                   \<and> length (pixels (fx frame (getCurFrame t) k scr)) = length (pixels scr))
         \<and> 956 \<le> getCurFrame t \<and> getCurFrame t \<le> 1038"
  then have f1: "188 \<le> w frame" and f2: "w frame \<le> pitch frame" and f3: "129 \<le> h frame"
    and f4: "h frame * pitch frame \<le> int (length (pixels frame))"
    and f5: "length (pixels frame) < 4294967296"
    and s1: "w frame \<le> w (screen s)" and s2: "h frame \<le> h (screen s)"
    and s3: "w (screen s) \<le> pitch (screen s)"
    and s4: "h (screen s) * pitch (screen s) \<le> int (length (pixels (screen s)))"
    and fxg: "\<And>k scr. w (fx frame (getCurFrame t) k scr) = w scr
                   \<and> h (fx frame (getCurFrame t) k scr) = h scr
                   \<and> pitch (fx frame (getCurFrame t) k scr) = pitch scr
                   \<and> length (pixels (fx frame (getCurFrame t) k scr)) = length (pixels scr)"
    and r1: "956 \<le> getCurFrame t" and r2: "getCurFrame t \<le> 1038"
    by blast+
  show "\<exists>s2 u px. showFrame fx False t s = Inr (s2, u)
            \<and> showFrame fx True t s =
                 Inr (s2\<lparr>screen := (screen s2)\<lparr>pixels := px\<rparr>,
                           calls := calls s2 @ glitchWorkaroundCalls frame\<rparr>, u)
            \<and> length px = length (pixels (screen s2))
            \<and> (\<forall>x. w frame - 188 \<le> x \<and> x < w frame \<longrightarrow>
                  px ! nat (getBasePtr (screen s2) x 124) = pixels frame ! nat (getBasePtr frame x 123)
                \<and> px ! nat (getBasePtr (screen s2) x 125) = pixels frame ! nat (getBasePtr frame x 126))
            \<and> (\<forall>x. 0 \<le> x \<and> x < 64 \<longrightarrow>
                  px ! nat (getBasePtr (screen s2) x 126) = pixels frame ! nat (getBasePtr frame x 125)
                \<and> px ! nat (getBasePtr (screen s2) x 127) = pixels frame ! nat (getBasePtr frame x 128))
            \<and> (\<forall>i. 0 \<le> i \<and> i < int (length (pixels (screen s2)))
                  \<and> (\<forall>x. w frame - 188 \<le> x \<and> x < w frame \<longrightarrow>
                         i \<noteq> getBasePtr (screen s2) x 124 \<and> i \<noteq> getBasePtr (screen s2) x 125)
                  \<and> (\<forall>x. 0 \<le> x \<and> x < 64 \<longrightarrow>
                         i \<noteq> getBasePtr (screen s2) x 126 \<and> i \<noteq> getBasePtr (screen s2) x 127)
                 \<longrightarrow> px ! nat i = pixels (screen s2) ! nat i)"
    by (rule workaround_effect [where fx = fx, OF assms(5,6) f1 f2 f3 f4 f5 s1 s2 s3 s4 fxg r1 r2])
qed

text \<open>
  A run of "209_1M.SMK" whose first pass decodes frame 1000, 640 by 400 with every
  byte of row \<open>y\<close> equal to \<open>y\<close>, onto a blank screen: the four calls are made, and when
  \<open>play\<close> returns the screen holds 125 at the start of row 126 and 123 at the end of
  row 124. The same pass of "INTRO.SMK" makes no such call.
\<close>

theorem glitchWorkaround_applied_witness:
  "(\<exists>m' s' u rest.
      play noSubtitles ''209_1M.SMK'' 0 True False [bigTick, lastTick]
        (\<lparr>playing = False, decoderPtr = 3, subtitlePtr = 6\<rparr>, bigHost) = Some (Inr (m', s'))
      \<and> calls s' =
          [LoadFile ''209_1M.SMK'', SubtitleLoad ''209_1M.SMK'', Start,
           CopyRectToScreen 0 640 0 0 640 400, Render bigFrame 1000 u] @
          glitchWorkaroundCalls bigFrame @ SetPalette (replicate 768 7) 0 256 # rest
      \<and> pixels (screen s') ! (126 * 640) = 125
      \<and> pixels (screen s') ! (124 * 640 + 639) = 123)
   \<and> (\<exists>s2 u px.
        showFrame noSubtitles True bigTick
          (call Start (call (SubtitleLoad ''209_1M.SMK'') (call (LoadFile ''209_1M.SMK'') bigHost)))
          = Inr (s2\<lparr>screen := (screen s2)\<lparr>pixels := px\<rparr>,
                     calls := calls s2 @ glitchWorkaroundCalls bigFrame\<rparr>, u)
        \<and> px ! nat (getBasePtr (screen s2) 0 126) = 125
        \<and> px ! nat (getBasePtr (screen s2) 639 124) = 123)
   \<and> play noSubtitles ''INTRO.SMK'' 0 True False [sampleTick False, lastTick]
        (\<lparr>playing = False, decoderPtr = 3, subtitlePtr = 6\<rparr>, sampleHost)
       = Some (Inr (\<lparr>playing = False, decoderPtr = 3, subtitlePtr = 6\<rparr>,
             sampleHost\<lparr>screen := \<lparr>w = 2, h = 2, pitch = 2, pixels = [1, 2, 0, 1]\<rparr>,
                         palette := replicate 9 7 @ [0xff, 0xff, 0] @ replicate 756 7,
                         calls := [LoadFile ''INTRO.SMK'', SubtitleLoad ''INTRO.SMK'', Start,
                                   CopyRectToScreen 0 2 0 0 2 2, Render sampleFrame 1000 3,
                                   SetPalette (replicate 768 7) 0 256,
                                   SetPalette [0xff, 0xff, 0] 3 1, UpdateScreen,
                                   DelayMillis 10, DirtyAllScreen, FlushPalette True,
                                   Close]\<rparr>))"
proof -
  let ?m = "\<lparr>playing = False, decoderPtr = 3, subtitlePtr = 6\<rparr>"
  let ?v = "''209_1M.SMK''"
  let ?start = "call Start (call (SubtitleLoad ?v) (call (LoadFile ?v) bigHost))"
  have st: "call Start (call (SubtitleLoad ?v) (call (LoadFile ?v)
              (if (0::int32) AND 1 \<noteq> 0 then setMusicVolume 0 bigHost else bigHost))) = ?start"
    by simp
  have reach: "passes noSubtitles (?v = ''209_1M.SMK'') []
            (call Start (call (SubtitleLoad ?v) (call (LoadFile ?v)
               (if (0::int32) AND 1 \<noteq> 0 then setMusicVolume 0 bigHost else bigHost)))) = Some ?start"
    by simp
  have t: "\<not> shouldQuit bigTick" "\<not> endOfVideo bigTick" "needsUpdate bigTick"
    and d: "decodeNextFrame bigTick = Some bigFrame"
    and nl: "\<not> isLowRes (decoderState bigTick)"
    and cur: "getCurFrame bigTick = 1000"
    and pal: "getPalette bigTick = replicate 768 7"
    and ev: "\<not> list_ex escapePressed (pollEvent bigTick)"
    by (simp_all add: bigTick_def isLowRes_def)
  note main = glitchWorkaround_applied [OF reach t d nl, where isMusicMuted = False and after = "[lastTick]" and m = ?m]
  have G: "188 \<le> w bigFrame \<and> w bigFrame \<le> pitch bigFrame \<and> 129 \<le> h bigFrame
         \<and> h bigFrame * pitch bigFrame \<le> int (length (pixels bigFrame))
         \<and> length (pixels bigFrame) < 4294967296
         \<and> w bigFrame \<le> w (screen ?start) \<and> h bigFrame \<le> h (screen ?start)
         \<and> w (screen ?start) \<le> pitch (screen ?start)
         \<and> h (screen ?start) * pitch (screen ?start) \<le> int (length (pixels (screen ?start)))
         \<and> (\<forall>k scr. w (noSubtitles bigFrame (getCurFrame bigTick) k scr) = w scr
                   \<and> h (noSubtitles bigFrame (getCurFrame bigTick) k scr) = h scr
                   \<and> pitch (noSubtitles bigFrame (getCurFrame bigTick) k scr) = pitch scr
                   \<and> length (pixels (noSubtitles bigFrame (getCurFrame bigTick) k scr))
                       = length (pixels scr))
         \<and> 956 \<le> getCurFrame bigTick \<and> getCurFrame bigTick \<le> 1038"
    by (simp add: bigFrame_def bigHost_def noSubtitles_def call_def cur)
  from main G obtain s2 u px where
    sfF: "showFrame noSubtitles False bigTick ?start = Inr (s2, u)" and
    app: "showFrame noSubtitles True bigTick ?start =
                 Inr (s2\<lparr>screen := (screen s2)\<lparr>pixels := px\<rparr>,
                           calls := calls s2 @ glitchWorkaroundCalls bigFrame\<rparr>, u)"
    and wide: "\<forall>x. w bigFrame - 188 \<le> x \<and> x < w bigFrame \<longrightarrow>
                  px ! nat (getBasePtr (screen s2) x 124) = pixels bigFrame ! nat (getBasePtr bigFrame x 123)
                \<and> px ! nat (getBasePtr (screen s2) x 125) = pixels bigFrame ! nat (getBasePtr bigFrame x 126)"
    and narrow: "\<forall>x. 0 \<le> x \<and> x < 64 \<longrightarrow>
                  px ! nat (getBasePtr (screen s2) x 126) = pixels bigFrame ! nat (getBasePtr bigFrame x 125)
                \<and> px ! nat (getBasePtr (screen s2) x 127) = pixels bigFrame ! nat (getBasePtr bigFrame x 128)"
    by blast
  have "(0::int) \<le> 0 \<and> (0::int) < 64" by simp
  with narrow have "px ! nat (getBasePtr (screen s2) 0 126)
                     = pixels bigFrame ! nat (getBasePtr bigFrame 0 125)" by blast
  also have "\<dots> = 125" by (simp add: bigFrame_def getBasePtr_def)
  finally have n0: "px ! nat (getBasePtr (screen s2) 0 126) = 125" .
  have "w bigFrame - 188 \<le> 639 \<and> 639 < w bigFrame" by (simp add: bigFrame_def)
  with wide have "px ! nat (getBasePtr (screen s2) 639 124)
                     = pixels bigFrame ! nat (getBasePtr bigFrame 639 123)" by blast
  also have "\<dots> = 123" by (simp add: bigFrame_def getBasePtr_def)
  finally have w0: "px ! nat (getBasePtr (screen s2) 639 124) = 123" .
  from app n0 w0 have second: "\<exists>s2 u px.
        showFrame noSubtitles True bigTick ?start
          = Inr (s2\<lparr>screen := (screen s2)\<lparr>pixels := px\<rparr>,
                     calls := calls s2 @ glitchWorkaroundCalls bigFrame\<rparr>, u)
        \<and> px ! nat (getBasePtr (screen s2) 0 126) = 125
        \<and> px ! nat (getBasePtr (screen s2) 639 124) = 123"
    by blast
  have p: "length (palette ?start) = 768" by (simp add: bigHost_def call_def)
  have g: "768 \<le> length (getPalette bigTick)" by (simp add: pal)
  have fits: "\<exists>px u. showFrame noSubtitles False bigTick ?start =
            Inr (render noSubtitles bigFrame (getCurFrame bigTick) u
                   (call (CopyRectToScreen 0 (pitch bigFrame) 0 0 (w bigFrame) (h bigFrame))
                      (?start\<lparr>screen := (screen ?start)\<lparr>pixels := px\<rparr>\<rparr>)), u)
           \<and> length px = length (pixels (screen ?start))"
    by (rule showFrame_fits [OF d nl])
       (simp_all add: bigFrame_def bigHost_def call_def)
  with sfF have ps: "pitch (screen s2) = 640"
    by (auto simp: render_def noSubtitles_def call_def bigHost_def)
  from updateFrame_screen [OF app p g] obtain s1 where
    uf0: "updateFrame noSubtitles True bigTick ?start = Inr s1"
    and scr1: "pixels (screen s1) = px" by auto
  from uf0 have uf: "updateFrame noSubtitles (?v = ''209_1M.SMK'') bigTick
           (call Start (call (SubtitleLoad ?v) (call (LoadFile ?v)
              (if (0::int32) AND 1 \<noteq> 0 then setMusicVolume 0 bigHost else bigHost)))) = Inr s1"
    by simp
  have le: "shouldQuit lastTick \<or> endOfVideo lastTick" by (simp add: lastTick_def)
  from play_single_pass_screen [OF t ev uf le, of False ?m] obtain m' s' where
    pl: "play noSubtitles ?v 0 True False [bigTick, lastTick] (?m, bigHost) = Some (Inr (m', s'))"
    and scr: "screen s' = screen s1"
    by blast
  have e1: "pixels (screen s') ! (126 * 640) = 125"
    using n0 by (simp add: scr scr1 getBasePtr_def ps)
  have e2: "pixels (screen s') ! (124 * 640 + 639) = 123"
    using w0 by (simp add: scr scr1 getBasePtr_def ps)
  from main pl obtain u' rest where
    "calls s' = calls ?start @
               [CopyRectToScreen 0 (pitch bigFrame) 0 0 (w bigFrame) (h bigFrame),
                Render bigFrame (getCurFrame bigTick) u'] @
               (if ?v = ''209_1M.SMK'' \<and> 956 \<le> getCurFrame bigTick \<and> getCurFrame bigTick \<le> 1038
                then glitchWorkaroundCalls bigFrame else []) @
               SetPalette (getPalette bigTick) 0 256 # rest"
    by auto
  then have "calls s' =
          [LoadFile ''209_1M.SMK'', SubtitleLoad ''209_1M.SMK'', Start,
           CopyRectToScreen 0 640 0 0 640 400, Render bigFrame 1000 u'] @
          glitchWorkaroundCalls bigFrame @ SetPalette (replicate 768 7) 0 256 # rest"
    by (simp add: cur pal call_def bigHost_def bigFrame_def)
  with pl e1 e2 have first: "\<exists>m' s' u rest.
      play noSubtitles ''209_1M.SMK'' 0 True False [bigTick, lastTick] (?m, bigHost) = Some (Inr (m', s'))
      \<and> calls s' =
          [LoadFile ''209_1M.SMK'', SubtitleLoad ''209_1M.SMK'', Start,
           CopyRectToScreen 0 640 0 0 640 400, Render bigFrame 1000 u] @
          glitchWorkaroundCalls bigFrame @ SetPalette (replicate 768 7) 0 256 # rest
      \<and> pixels (screen s') ! (126 * 640) = 125
      \<and> pixels (screen s') ! (124 * 640 + 639) = 123"
    by blast
  have third: "play noSubtitles ''INTRO.SMK'' 0 True False [sampleTick False, lastTick]
        (?m, sampleHost)
       = Some (Inr (\<lparr>playing = False, decoderPtr = 3, subtitlePtr = 6\<rparr>,
             sampleHost\<lparr>screen := \<lparr>w = 2, h = 2, pitch = 2, pixels = [1, 2, 0, 1]\<rparr>,
                         palette := replicate 9 7 @ [0xff, 0xff, 0] @ replicate 756 7,
                         calls := [LoadFile ''INTRO.SMK'', SubtitleLoad ''INTRO.SMK'', Start,
                                   CopyRectToScreen 0 2 0 0 2 2, Render sampleFrame 1000 3,
                                   SetPalette (replicate 768 7) 0 256,
                                   SetPalette [0xff, 0xff, 0] 3 1, UpdateScreen,
                                   DelayMillis 10, DirtyAllScreen, FlushPalette True,
                                   Close]\<rparr>))"
    by code_simp
  from first second third show ?thesis by (intro conjI)
qed

end
